theory Spec2Isabelle
  imports Main "HOL-Library.Char_ord" "HOL-Library.List_Lexorder"
    "HOL-Library.Product_Lexorder" "HOL-Library.Multiset"
begin

section \<open>Python strings\<close>

text \<open>
  The conversational command interpreter of the school-administration platform works on
  Python \<open>str\<close> values. A string is modelled as a list of characters. The character
  classes and the case mappings below are those of Python on the ASCII range, the range
  of the commands and labels that the interpreter knows; a character above 127 is treated
  as a symbol without case that is neither a digit nor white space. Python's mappings of
  other code points can change the length of a text; the section on the entity normalizer
  beyond ASCII works on code points.
\<close>

definition py_isspace :: "char \<Rightarrow> bool" where
  \<comment> \<open>\<open>str.isspace\<close> and the regular expression class \<open>\s\<close>: TAB, LF, VT, FF, CR,
      the separators 28 to 31 and the space.\<close>
  "py_isspace c = (let n = (of_char c :: nat) in (9 \<le> n \<and> n \<le> 13) \<or> (28 \<le> n \<and> n \<le> 32))"

definition py_isdigit :: "char \<Rightarrow> bool" where
  "py_isdigit c = (let n = (of_char c :: nat) in 48 \<le> n \<and> n \<le> 57)"

definition py_isupper :: "char \<Rightarrow> bool" where
  "py_isupper c = (let n = (of_char c :: nat) in 65 \<le> n \<and> n \<le> 90)"

definition py_islower :: "char \<Rightarrow> bool" where
  "py_islower c = (let n = (of_char c :: nat) in 97 \<le> n \<and> n \<le> 122)"

definition py_isalpha :: "char \<Rightarrow> bool" where
  "py_isalpha c = (py_isupper c \<or> py_islower c)"

definition py_isword :: "char \<Rightarrow> bool" where
  \<comment> \<open>the regular expression class \<open>\w\<close>\<close>
  "py_isword c = (py_isalpha c \<or> py_isdigit c \<or> c = CHR ''_'')"

definition lower_char :: "char \<Rightarrow> char" where
  \<comment> \<open>the lower case mapping of the ASCII range\<close>
  "lower_char c = (if py_isupper c then char_of ((of_char c :: nat) + 32) else c)"

definition upper_char :: "char \<Rightarrow> char" where
  \<comment> \<open>the upper case mapping of the ASCII range\<close>
  "upper_char c = (if py_islower c then char_of ((of_char c :: nat) - 32) else c)"

definition lower :: "string \<Rightarrow> string" where
  "lower s = map lower_char s"

definition upper :: "string \<Rightarrow> string" where
  "upper s = map upper_char s"

definition strip :: "string \<Rightarrow> string" where
  "strip s = rev (dropWhile py_isspace (rev (dropWhile py_isspace s)))"

definition isdigit :: "string \<Rightarrow> bool" where
  \<comment> \<open>\<open>str.isdigit\<close>: false on the empty string\<close>
  "isdigit s = (s \<noteq> [] \<and> list_all py_isdigit s)"

fun title_from :: "bool \<Rightarrow> string \<Rightarrow> string" where
  \<comment> \<open>\<open>str.title\<close> on ASCII text; the flag says that the previous character is a cased
      letter\<close>
  "title_from prev [] = []"
| "title_from prev (c # cs) =
     (if py_isalpha c then (if prev then lower_char c else upper_char c) # title_from True cs
      else c # title_from False cs)"

definition title :: "string \<Rightarrow> string" where
  "title s = title_from False s"

fun split_from :: "string \<Rightarrow> string \<Rightarrow> string list" where
  \<comment> \<open>\<open>str.split()\<close> without argument: the maximal runs of characters that are not white
      space; the first argument is the word being read\<close>
  "split_from w [] = (if w = [] then [] else [w])"
| "split_from w (c # cs) =
     (if py_isspace c then (if w = [] then split_from [] cs else w # split_from [] cs)
      else split_from (w @ [c]) cs)"

definition split :: "string \<Rightarrow> string list" where
  "split s = split_from [] s"

fun join :: "string \<Rightarrow> string list \<Rightarrow> string" where
  "join sep [] = []"
| "join sep [x] = x"
| "join sep (x # y # ys) = x @ sep @ join sep (y # ys)"

definition startswith :: "string \<Rightarrow> string \<Rightarrow> bool" where
  "startswith s p = (take (length p) s = p)"

fun contains :: "string \<Rightarrow> string \<Rightarrow> bool" where
  \<comment> \<open>\<open>sub in s\<close>\<close>
  "contains sub [] = (sub = [])"
| "contains sub (c # cs) = (startswith (c # cs) sub \<or> contains sub cs)"

function replace :: "string \<Rightarrow> string \<Rightarrow> string \<Rightarrow> string" where
  \<comment> \<open>\<open>s.replace(old, new)\<close> for a text \<open>old\<close> that is not empty\<close>
  "replace old new [] = []"
| "replace old new (c # cs) =
     (if old \<noteq> [] \<and> startswith (c # cs) old
      then new @ replace old new (drop (length old) (c # cs))
      else c # replace old new cs)"
  by pat_completeness auto
termination
  by (relation "measure (\<lambda>(old, new, s). length s)") auto

section \<open>Regular expressions\<close>

text \<open>
  The fragment of Python's \<open>re\<close> syntax that the actions use. A match is searched by
  backtracking: \<open>matches\<close> lists, in the order in which the backtracking matcher of
  \<open>re\<close> tries them, the states that a pattern can reach from a given state. A state is
  the character before the current position (none at the start of the text), the text
  that is left, and the groups captured so far.
\<close>

datatype regex =
    Eps
  | Lit string
  | Cls "char \<Rightarrow> bool"
  | Seq regex regex
  | Alt regex regex
  | Star regex
  | Bol
  | Eol
  | WordB
  | Grp nat regex

type_synonym mstate = "char option \<times> string \<times> (nat \<times> string) list"

definition Plus :: "regex \<Rightarrow> regex" where
  "Plus r = Seq r (Star r)"

definition Opt :: "regex \<Rightarrow> regex" where
  "Opt r = Alt r Eps"

fun seqs :: "regex list \<Rightarrow> regex" where
  "seqs [] = Eps"
| "seqs [r] = r"
| "seqs (r # rs) = Seq r (seqs rs)"

fun alts :: "regex list \<Rightarrow> regex" where
  \<comment> \<open>an alternation \<open>(r1|r2|...)\<close>, tried from left to right\<close>
  "alts [] = Cls (\<lambda>c. False)"
| "alts [r] = r"
| "alts (r # rs) = Alt r (alts rs)"

definition words :: "string list \<Rightarrow> regex" where
  \<comment> \<open>an alternation of literal words\<close>
  "words ws = alts (map Lit ws)"

fun rep :: "nat \<Rightarrow> nat \<Rightarrow> regex \<Rightarrow> regex" where
  \<comment> \<open>the bounded repetition \<open>r{m,n}\<close>, greedy\<close>
  "rep 0 0 r = Eps"
| "rep 0 (Suc n) r = Opt (Seq r (rep 0 n r))"
| "rep (Suc m) n r = Seq r (rep m (n - 1) r)"

definition lit_eq :: "bool \<Rightarrow> string \<Rightarrow> string \<Rightarrow> bool" where
  \<comment> \<open>comparison of literal text, modulo case under \<open>re.IGNORECASE\<close>\<close>
  "lit_eq icase a b = (if icase then lower a = lower b else a = b)"

definition last_char :: "char option \<Rightarrow> string \<Rightarrow> char option" where
  "last_char p w = (if w = [] then p else Some (last w))"

definition at_boundary :: "char option \<Rightarrow> string \<Rightarrow> bool" where
  \<comment> \<open>\<open>\b\<close>: exactly one of the two neighbouring characters is a word character\<close>
  "at_boundary p s =
     ((case p of None \<Rightarrow> False | Some c \<Rightarrow> py_isword c)
        \<noteq> (case s of [] \<Rightarrow> False | c # _ \<Rightarrow> py_isword c))"

primrec star_iter :: "nat \<Rightarrow> (mstate \<Rightarrow> mstate list) \<Rightarrow> mstate \<Rightarrow> mstate list" where
  \<comment> \<open>greedy repetition: one more round where the body consumed text, else stop here\<close>
  "star_iter 0 m st = [st]"
| "star_iter (Suc n) m st =
     concat (map (\<lambda>st'. if length (fst (snd st')) < length (fst (snd st))
                         then star_iter n m st' else []) (m st)) @ [st]"

primrec matches :: "regex \<Rightarrow> bool \<Rightarrow> mstate \<Rightarrow> mstate list" where
  "matches Eps icase = (\<lambda>st. [st])"
| "matches (Lit w) icase = (\<lambda>(p, s, g).
     if lit_eq icase (take (length w) s) w
     then [(last_char p (take (length w) s), drop (length w) s, g)] else [])"
| "matches (Cls P) icase = (\<lambda>(p, s, g).
     case s of [] \<Rightarrow> [] | c # cs \<Rightarrow> if P c then [(Some c, cs, g)] else [])"
| "matches (Seq a b) icase = (\<lambda>st. concat (map (matches b icase) (matches a icase st)))"
| "matches (Alt a b) icase = (\<lambda>st. matches a icase st @ matches b icase st)"
| "matches (Star a) icase = (\<lambda>st. star_iter (length (fst (snd st))) (matches a icase) st)"
| "matches Bol icase = (\<lambda>(p, s, g). if p = None then [(p, s, g)] else [])"
| "matches Eol icase = (\<lambda>(p, s, g). if s = [] \<or> s = [CHR 0x0A] then [(p, s, g)] else [])"
| "matches WordB icase = (\<lambda>(p, s, g). if at_boundary p s then [(p, s, g)] else [])"
| "matches (Grp n a) icase = (\<lambda>(p, s, g).
     map (\<lambda>(p', s', g'). (p', s', (n, take (length s - length s') s) # g'))
       (matches a icase (p, s, g)))"

definition match_at :: "regex \<Rightarrow> bool \<Rightarrow> char option \<Rightarrow> string \<Rightarrow> mstate option" where
  \<comment> \<open>the match that \<open>re\<close> finds at one position: the first one in backtracking order\<close>
  "match_at r icase p s = (case matches r icase (p, s, []) of [] \<Rightarrow> None | st # _ \<Rightarrow> Some st)"

definition re_match :: "regex \<Rightarrow> bool \<Rightarrow> string \<Rightarrow> mstate option" where
  \<comment> \<open>\<open>re.match\<close>: a match at the start of the text\<close>
  "re_match r icase s = match_at r icase None s"

fun search_from :: "regex \<Rightarrow> bool \<Rightarrow> char option \<Rightarrow> string \<Rightarrow> mstate option" where
  "search_from r icase p [] = match_at r icase p []"
| "search_from r icase p (c # cs) =
     (case match_at r icase p (c # cs) of
        Some st \<Rightarrow> Some st
      | None \<Rightarrow> search_from r icase (Some c) cs)"

definition re_search :: "regex \<Rightarrow> bool \<Rightarrow> string \<Rightarrow> mstate option" where
  \<comment> \<open>\<open>re.search\<close>: the leftmost match\<close>
  "re_search r icase s = search_from r icase None s"

definition group :: "mstate \<Rightarrow> nat \<Rightarrow> string option" where
  \<comment> \<open>\<open>match.group(n)\<close>; \<open>None\<close> for a group that took no part in the match\<close>
  "group st n = map_of (snd (snd st)) n"

function sub_from :: "regex \<Rightarrow> bool \<Rightarrow> string \<Rightarrow> char option \<Rightarrow> string \<Rightarrow> string" where
  \<comment> \<open>\<open>re.sub\<close> with a constant replacement, for a pattern that matches no empty text (as
      every pattern that the actions substitute): replace the leftmost match, go on
      behind it\<close>
  "sub_from r icase repl p s =
     (case match_at r icase p s of
        Some (p', s', g) \<Rightarrow>
          if length s' < length s then repl @ sub_from r icase repl p' s'
          else (case s of [] \<Rightarrow> repl | c # cs \<Rightarrow> repl @ c # sub_from r icase repl (Some c) cs)
      | None \<Rightarrow> (case s of [] \<Rightarrow> [] | c # cs \<Rightarrow> c # sub_from r icase repl (Some c) cs))"
  by pat_completeness auto
termination
  by (relation "measure (\<lambda>(r, icase, repl, p, s). length s)") auto

declare sub_from.simps [simp del]

definition re_sub :: "regex \<Rightarrow> bool \<Rightarrow> string \<Rightarrow> string \<Rightarrow> string" where
  "re_sub r icase repl s = sub_from r icase repl None s"

function resplit_from :: "regex \<Rightarrow> bool \<Rightarrow> string \<Rightarrow> char option \<Rightarrow> string \<Rightarrow> string list" where
  \<comment> \<open>\<open>re.split\<close> for a pattern without groups that matches no empty text; the third
      argument is the piece being read\<close>
  "resplit_from r icase cur p s =
     (case match_at r icase p s of
        Some (p', s', g) \<Rightarrow>
          if length s' < length s then cur # resplit_from r icase [] p' s'
          else (case s of [] \<Rightarrow> [cur] | c # cs \<Rightarrow> resplit_from r icase (cur @ [c]) (Some c) cs)
      | None \<Rightarrow> (case s of [] \<Rightarrow> [cur] | c # cs \<Rightarrow> resplit_from r icase (cur @ [c]) (Some c) cs))"
  by pat_completeness auto
termination
  by (relation "measure (\<lambda>(r, icase, cur, p, s). length s)") auto

declare resplit_from.simps [simp del]

definition re_split :: "regex \<Rightarrow> bool \<Rightarrow> string \<Rightarrow> string list" where
  "re_split r icase s = resplit_from r icase [] None s"

section \<open>Entity normalizer\<close>

text \<open>
  \<open>normalize_level_label\<close>, the helper of \<open>ActionCreateClass.run\<close>
  (\<open>rasa/actions/academic_actions.py\<close>):
  \<^verbatim>\<open>
    if not text: return text
    text = str(text).strip()
    if re.match(r'^(form|jss|pp|standard)\s+\d+', text, re.IGNORECASE): return text.title()
    if text.isdigit(): return text
    text = re.sub(r'\bgrade\s+', 'Class ', text, flags=re.IGNORECASE)
    if text.lower().startswith('class'): return text.title()
    return text.title()
  \<close>
\<close>

definition level_keyword_re :: regex where
  \<comment> \<open>\<open>^(form|jss|pp|standard)\s+\d+\<close>\<close>
  "level_keyword_re =
     seqs [Bol, Grp 1 (words [''form'', ''jss'', ''pp'', ''standard'']),
           Plus (Cls py_isspace), Plus (Cls py_isdigit)]"

definition grade_re :: regex where
  \<comment> \<open>\<open>\bgrade\s+\<close>\<close>
  "grade_re = seqs [WordB, Lit ''grade'', Plus (Cls py_isspace)]"

definition level_kws :: "string list" where
  \<comment> \<open>the words of \<open>level_keyword_re\<close>\<close>
  "level_kws = [''form'', ''jss'', ''pp'', ''standard'']"

definition kw_shape :: "string \<Rightarrow> bool" where
  \<comment> \<open>the texts that \<open>level_keyword_re\<close> matches, described without the matcher, for the
      proofs about \<open>normalize_level_label\<close>: a level word in any case, white space, a
      digit\<close>
  "kw_shape s = (\<exists>k c w d r. s = k @ c # w @ d # r \<and> lower k \<in> set level_kws \<and> py_isspace c
                   \<and> list_all py_isspace w \<and> py_isdigit d)"

abbreviation isw :: "char option \<Rightarrow> bool" where
  "isw p \<equiv> (case p of None \<Rightarrow> False | Some c \<Rightarrow> py_isword c)"

definition grade_here :: "string \<Rightarrow> bool" where
  \<comment> \<open>the text starts with "grade", in any case, and a white space character\<close>
  "grade_here s =
     (lower (take 5 s) = ''grade'' \<and> (case drop 5 s of [] \<Rightarrow> False | c # cs \<Rightarrow> py_isspace c))"

function sub_grade :: "bool \<Rightarrow> string \<Rightarrow> string" where
  \<comment> \<open>the substitution of \<open>grade_re\<close> by "Class " written as a recursion over the text,
      for the proofs about \<open>normalize_level_label\<close>; the flag says that the character
      before the text is a word character. It is proved equal to \<open>re_sub\<close> below.\<close>
  "sub_grade b s =
     (if \<not> b \<and> grade_here s then ''Class '' @ sub_grade False (dropWhile py_isspace (drop 5 s))
      else (case s of [] \<Rightarrow> [] | c # cs \<Rightarrow> c # sub_grade (py_isword c) cs))"
  by pat_completeness auto
termination
proof (relation "measure (\<lambda>(b, s). length s)", goal_cases)
  case 1
  show ?case by simp
next
  case (2 b s)
  then have "drop 5 s \<noteq> []"
    by (auto simp: grade_here_def)
  then have "5 < length s"
    by simp
  moreover have "length (dropWhile py_isspace (drop 5 s)) \<le> length (drop 5 s)"
    by (rule length_dropWhile_le)
  ultimately show ?case
    by simp
next
  case (3 b s c cs)
  then show ?case by simp
qed

declare sub_grade.simps [simp del]

definition normalize_level_label :: "string \<Rightarrow> string" where
  "normalize_level_label text0 =
     (if text0 = [] then text0
      else let text = strip text0 in
        if re_match level_keyword_re True text \<noteq> None then title text
        else if isdigit text then text
        else let text = re_sub grade_re True ''Class '' text in
          if startswith (lower text) ''class'' then title text
          else title text)"

section \<open>Fragment extractor\<close>

text \<open>
  \<open>parse_level_and_stream\<close>, the second helper of \<open>ActionCreateClass.run\<close>. Its
  result is the pair \<open>(level, stream)\<close>, each \<open>None\<close> or a string.
\<close>

definition level_stream_re :: regex where
  \<comment> \<open>pattern1: \<open>(?:class|grade|form|jss|standard|pp)?\s*(\d+)\s+([a-zA-Z]+)\<close>\<close>
  "level_stream_re =
     seqs [Opt (words [''class'', ''grade'', ''form'', ''jss'', ''standard'', ''pp'']),
           Star (Cls py_isspace), Grp 1 (Plus (Cls py_isdigit)), Plus (Cls py_isspace),
           Grp 2 (Plus (Cls py_isalpha))]"

definition level_prefix_re :: regex where
  \<comment> \<open>\<open>(grade|form|jss|standard|pp)\s+\d+\<close>\<close>
  "level_prefix_re =
     seqs [Grp 1 (words [''grade'', ''form'', ''jss'', ''standard'', ''pp'']),
           Plus (Cls py_isspace), Plus (Cls py_isdigit)]"

definition level_only_re :: regex where
  \<comment> \<open>pattern2: \<open>(grade|form|jss|standard|pp|class)?\s*(\d+)(?:\s|$)\<close>\<close>
  "level_only_re =
     seqs [Opt (Grp 1 (words [''grade'', ''form'', ''jss'', ''standard'', ''pp'', ''class''])),
           Star (Cls py_isspace), Grp 2 (Plus (Cls py_isdigit)), Alt (Cls py_isspace) Eol]"

definition the_group :: "mstate \<Rightarrow> nat \<Rightarrow> string" where
  \<comment> \<open>a group that every match of the pattern sets\<close>
  "the_group st n = (case group st n of Some w \<Rightarrow> w | None \<Rightarrow> [])"

definition parse_level_and_stream :: "string \<Rightarrow> string option \<times> string option" where
  "parse_level_and_stream text =
     (case re_search level_stream_re True text of
        Some m \<Rightarrow>
          (let level_num = the_group m 1; stream_name = the_group m 2 in
           (case re_search level_prefix_re True text of
              Some pm \<Rightarrow> (Some (title (the_group pm 1) @ '' '' @ level_num), Some (title stream_name))
            | None \<Rightarrow> (Some level_num, Some (title stream_name))))
      | None \<Rightarrow>
          (case re_search level_only_re True text of
             Some m \<Rightarrow>
               (let level_num = the_group m 2 in
                (case group m 1 of
                   Some pre \<Rightarrow> (if pre \<noteq> [] then (Some (title pre @ '' '' @ level_num), None)
                                else (Some level_num, None))
                 | None \<Rightarrow> (Some level_num, None)))
           | None \<Rightarrow> (None, None)))"

text \<open>
  \<open>extract_all_streams\<close> of \<open>ActionCreateClass.run\<close>
  (\<open>rasa/actions/academic_actions.py\<close>, lines 1144 to 1224).
\<close>

definition stream_keywords :: "string list" where
  "stream_keywords =
     [''red'', ''blue'', ''green'', ''yellow'', ''purple'', ''orange'', ''pink'',
      ''white'', ''black'', ''brown'', ''gray'', ''grey'', ''violet'', ''indigo'',
      ''maroon'', ''turquoise'', ''crimson'', ''scarlet'', ''amber'', ''cyan'',
      ''magenta'', ''gold'', ''silver'', ''bronze'',
      ''north'', ''south'', ''east'', ''west'',
      ''alpha'', ''beta'', ''gamma'', ''delta'', ''omega'', ''sigma'', ''theta'',
      ''a'', ''b'', ''c'', ''d'', ''e'', ''f'', ''g'', ''h'', ''i'', ''j'', ''k'', ''l'', ''m'',
      ''n'', ''o'', ''p'', ''q'', ''r'', ''s'', ''t'', ''u'', ''v'', ''w'', ''x'', ''y'', ''z'',
      ''eagle'', ''lion'', ''tiger'', ''falcon'', ''hawk'', ''phoenix'', ''leopard'',
      ''cheetah'', ''panther'', ''marvel'', ''excellence'', ''victory'', ''mama'',
      ''baba'', ''silk'']"

definition with_streams_re :: regex where
  \<comment> \<open>\<open>\bwith\s+streams?\b\<close>\<close>
  "with_streams_re =
     seqs [WordB, Lit ''with'', Plus (Cls py_isspace), Lit ''stream'', Opt (Lit ''s''), WordB]"

definition digits_re :: regex where
  \<comment> \<open>\<open>\d+\<close>\<close>
  "digits_re = Grp 0 (Plus (Cls py_isdigit))"

definition level_ref_re :: "string \<Rightarrow> regex" where
  \<comment> \<open>\<open>\b(class|grade|form|jss|pp|create|new|make|add)\s*{num}\b\<close>\<close>
  "level_ref_re num =
     seqs [WordB,
           Grp 1 (words [''class'', ''grade'', ''form'', ''jss'', ''pp'', ''create'', ''new'',
                         ''make'', ''add'']),
           Star (Cls py_isspace), Lit num, WordB]"

definition action_keywords_re :: regex where
  \<comment> \<open>\<open>\b(class|grade|form|jss|pp|create|new|make|add|streams?)\b\<close>\<close>
  "action_keywords_re =
     seqs [WordB,
           Grp 1 (alts [Lit ''class'', Lit ''grade'', Lit ''form'', Lit ''jss'', Lit ''pp'',
                        Lit ''create'', Lit ''new'', Lit ''make'', Lit ''add'',
                        Seq (Lit ''stream'') (Opt (Lit ''s''))]),
           WordB]"

definition parts_re :: regex where
  \<comment> \<open>\<open>,|\s+and\s+\<close>\<close>
  "parts_re = Alt (Lit '','') (seqs [Plus (Cls py_isspace), Lit ''and'', Plus (Cls py_isspace)])"

definition clean_text :: "string \<Rightarrow> string \<Rightarrow> string" where
  \<comment> \<open>the three substitutions: "with streams", the level reference, the action keywords\<close>
  "clean_text text level_str =
     (let t1 = re_sub with_streams_re True [] text;
          t2 = (if level_str \<noteq> [] then
                  (case re_search digits_re False level_str of
                     Some m \<Rightarrow> re_sub (level_ref_re (the_group m 0)) True [] t1
                   | None \<Rightarrow> t1)
                else t1)
      in re_sub action_keywords_re True [] t2)"

definition stream_parts :: "string \<Rightarrow> string \<Rightarrow> string list" where
  \<comment> \<open>\<open>parts = re.split(r',|\s+and\s+', clean_text)\<close>\<close>
  "stream_parts text level_str = re_split parts_re False (clean_text text level_str)"

definition stream_label :: "string \<Rightarrow> string" where
  \<comment> \<open>single letters in upper case, everything else in title case\<close>
  "stream_label word = (if length word = 1 then upper word else title word)"

definition part_stream :: "string \<Rightarrow> string option" where
  \<comment> \<open>the body of the loop over the parts: the first word of the part that is a stream
      keyword (the inner loop leaves at its first hit)\<close>
  "part_stream part =
     (let part_clean = lower (strip part) in
      if part_clean = [] then None
      else map_option stream_label (find (\<lambda>word. word \<in> set stream_keywords) (split part_clean)))"

fun unique_streams :: "string set \<Rightarrow> string list \<Rightarrow> string list" where
  \<comment> \<open>removal of duplicates with the set \<open>seen\<close> of the lower-cased names met so far\<close>
  "unique_streams seen [] = []"
| "unique_streams seen (stream_name # rest) =
     (if lower stream_name \<notin> seen
      then stream_name # unique_streams (insert (lower stream_name) seen) rest
      else unique_streams seen rest)"

definition found_streams :: "string list \<Rightarrow> string list" where
  "found_streams parts = List.map_filter part_stream parts"

definition extract_all_streams :: "string \<Rightarrow> string \<Rightarrow> string list" where
  "extract_all_streams text level_str =
     unique_streams {} (found_streams (stream_parts text level_str))"

section \<open>Numbers in text\<close>

definition digit_char :: "nat \<Rightarrow> char" where
  "digit_char d = char_of (48 + d)"

fun str_nat :: "nat \<Rightarrow> string" where
  "str_nat n = (if n < 10 then [digit_char n] else str_nat (n div 10) @ [digit_char (n mod 10)])"

definition str_int :: "int \<Rightarrow> string" where
  \<comment> \<open>\<open>str(i)\<close> for an integer\<close>
  "str_int i = (if i < 0 then CHR ''-'' # str_nat (nat (- i)) else str_nat (nat i))"

fun digits_ok :: "string \<Rightarrow> bool" where
  \<comment> \<open>decimal digits, where single underscores may stand between two digits\<close>
  "digits_ok [] = False"
| "digits_ok [c] = py_isdigit c"
| "digits_ok (c # d # cs) =
     (py_isdigit c \<and> (if d = CHR ''_'' then digits_ok cs else digits_ok (d # cs)))"

definition digits_value :: "string \<Rightarrow> nat" where
  "digits_value ds = foldl (\<lambda>acc c. 10 * acc + ((of_char c :: nat) - 48)) 0 ds"

definition py_int :: "string \<Rightarrow> int option" where
  \<comment> \<open>\<open>int(s)\<close> for a string; \<open>None\<close> stands for the \<open>ValueError\<close>\<close>
  "py_int s =
     (let t = strip s;
          neg = (t \<noteq> [] \<and> hd t = CHR ''-'');
          body = (if t \<noteq> [] \<and> (hd t = CHR ''-'' \<or> hd t = CHR ''+'') then tl t else t)
      in if digits_ok body
         then (let v = int (digits_value (filter (\<lambda>c. c \<noteq> CHR ''_'') body))
               in Some (if neg then - v else v))
         else None)"

section \<open>The classes router of the administrative API\<close>

text \<open>
  The tables \<open>classes\<close> and \<open>class_streams\<close> (\<open>app/models/class_model.py\<close>,
  \<open>app/models/class_stream.py\<close>) and the endpoints of \<open>app/api/routers/classes.py\<close>
  that the interpreter calls. A table is the list of its rows in insertion order. The
  primary keys, random UUIDs in the source, are taken from a counter, and so is the
  creation time. A query without \<open>ORDER BY\<close> returns the rows in insertion order; a query
  with \<open>ORDER BY\<close> sorts them by code points and keeps the insertion order among equal
  keys.
\<close>

record class_row =
  row_id :: nat
  row_school :: string
  row_name :: string
  row_level :: string
  row_year :: int
  row_stream :: "string option"
  row_created :: nat

record stream_row =
  srow_id :: nat
  srow_school :: string
  srow_class :: nat
  srow_name :: string

record db =
  db_classes :: "class_row list"
  db_streams :: "stream_row list"
  db_counter :: nat

record class_create =
  \<comment> \<open>the request body \<open>ClassCreate\<close>\<close>
  cc_name :: string
  cc_level :: string
  cc_stream :: "string option"
  cc_academic_year :: int

record class_out =
  \<comment> \<open>the response body \<open>ClassOut\<close>, without the student count\<close>
  co_id :: nat
  co_name :: string
  co_level :: string
  co_academic_year :: int
  co_stream :: "string option"
  co_created :: nat
  co_streams :: "string list"

datatype body =
    ClassBody class_out
  | Detail string
  | NoBody

datatype 'a response =
    Raised
  | Response nat 'a

datatype backend_log = WarnMultipleDuplicates nat string int

definition class_out_of :: "class_row \<Rightarrow> string list \<Rightarrow> class_out" where
  "class_out_of c names =
     \<lparr>co_id = row_id c, co_name = row_name c, co_level = row_level c,
      co_academic_year = row_year c, co_stream = row_stream c, co_created = row_created c,
      co_streams = names\<rparr>"

definition streams_of :: "db \<Rightarrow> nat \<Rightarrow> string list" where
  \<comment> \<open>\<open>select(ClassStream).where(class_id == id).order_by(ClassStream.name)\<close>\<close>
  "streams_of d cid = sort (map srow_name (filter (\<lambda>r. srow_class r = cid) (db_streams d)))"

definition insert_class :: "db \<Rightarrow> string \<Rightarrow> string \<Rightarrow> string \<Rightarrow> int \<Rightarrow> string option
    \<Rightarrow> (class_row \<times> db) option" where
  \<comment> \<open>\<open>db.add(new_class); db.commit()\<close>: the commit fails on a value longer than its column
      (\<open>String(64)\<close>, \<open>String(64)\<close>, \<open>String(16)\<close>)\<close>
  "insert_class d school name level year stream =
     (if length name > 64 \<or> length level > 64
         \<or> (case stream of None \<Rightarrow> False | Some s \<Rightarrow> length s > 16)
      then None
      else let c = \<lparr>row_id = db_counter d, row_school = school, row_name = name,
                     row_level = level, row_year = year, row_stream = stream,
                     row_created = db_counter d\<rparr>
           in Some (c, d\<lparr>db_classes := db_classes d @ [c], db_counter := Suc (db_counter d)\<rparr>))"

definition insert_stream :: "db \<Rightarrow> string \<Rightarrow> nat \<Rightarrow> string \<Rightarrow> (stream_row \<times> db) option" where
  \<comment> \<open>the commit fails on a name longer than \<open>String(50)\<close> and on a second row with the
      same class and name (\<open>uq_stream_per_class\<close>)\<close>
  "insert_stream d school cid name =
     (if length name > 50
         \<or> list_ex (\<lambda>r. srow_class r = cid \<and> srow_name r = name) (db_streams d)
      then None
      else let r = \<lparr>srow_id = db_counter d, srow_school = school, srow_class = cid,
                     srow_name = name\<rparr>
           in Some (r, d\<lparr>db_streams := db_streams d @ [r], db_counter := Suc (db_counter d)\<rparr>))"

definition create_or_add_stream :: "string \<Rightarrow> db \<Rightarrow> class_create
    \<Rightarrow> body response \<times> db \<times> backend_log list" where
  \<comment> \<open>\<open>POST /classes/level-stream\<close>\<close>
  "create_or_add_stream school d class_data =
     (let level = cc_level class_data;
          stream_name = cc_stream class_data;
          academic_year = cc_academic_year class_data;
          base = filter (\<lambda>c. row_school c = school \<and> row_level c = level
                              \<and> row_year c = academic_year \<and> row_stream c = None) (db_classes d);
          all_level_classes = filter (\<lambda>c. row_school c = school \<and> row_level c = level
                              \<and> row_year c = academic_year) (db_classes d);
          existing_level_class =
            (case base of c # _ \<Rightarrow> Some c
             | [] \<Rightarrow> (case all_level_classes of c # _ \<Rightarrow> Some c | [] \<Rightarrow> None));
          logs = (if base = [] \<and> length all_level_classes > 1
                  then [WarnMultipleDuplicates (length all_level_classes) level academic_year]
                  else []);
          create_base =
            (case insert_class d school level level academic_year None of
               None \<Rightarrow> (Response 500 (Detail ''Error creating class''), d, logs)
             | Some (new_class, d1) \<Rightarrow>
                 (case stream_name of
                    Some sn \<Rightarrow>
                      (if sn \<noteq> [] then
                         (case insert_stream d1 school (row_id new_class) (title sn) of
                            None \<Rightarrow> (Response 500 (Detail ''Error creating class''), d1, logs)
                          | Some (new_stream, d2) \<Rightarrow>
                              (Response 201 (ClassBody (class_out_of new_class [srow_name new_stream])),
                               d2, logs))
                       else (Response 201 (ClassBody (class_out_of new_class [])), d1, logs))
                  | None \<Rightarrow> (Response 201 (ClassBody (class_out_of new_class [])), d1, logs)))
      in case (existing_level_class, stream_name) of
           (Some existing, Some sn) \<Rightarrow>
             (if sn \<noteq> [] then
                (if list_ex (\<lambda>r. srow_class r = row_id existing
                                   \<and> lower (srow_name r) = lower sn) (db_streams d)
                 then (Response 409 (Detail (''Stream '' @ [CHR 0x27] @ sn @ [CHR 0x27]
                          @ '' already exists for Class '' @ level)), d, logs)
                 else (case insert_stream d school (row_id existing) (title sn) of
                         None \<Rightarrow> (Response 500 (Detail ''Error adding stream''), d, logs)
                       | Some (new_stream, d1) \<Rightarrow>
                           (Response 201 (ClassBody (class_out_of existing
                              (streams_of d1 (row_id existing)))), d1, logs)))
              else create_base)
         | _ \<Rightarrow> create_base)"

definition create_class :: "string \<Rightarrow> db \<Rightarrow> class_create \<Rightarrow> body response \<times> db" where
  \<comment> \<open>\<open>POST /classes\<close>; \<open>scalar_one_or_none\<close> raises on more than one row, which the
      framework answers with status 500\<close>
  "create_class school d class_data =
     (let existing = filter (\<lambda>c. row_school c = school
                              \<and> lower (row_name c) = lower (cc_name class_data)
                              \<and> row_year c = cc_academic_year class_data) (db_classes d)
      in if length existing > 1 then (Response 500 NoBody, d)
         else if existing \<noteq> [] then
           (Response 409 (Detail (''Class '' @ [CHR 0x27] @ cc_name class_data @ [CHR 0x27]
              @ '' already exists for academic year ''
              @ str_int (cc_academic_year class_data))), d)
         else (case insert_class d school (cc_name class_data) (cc_level class_data)
                      (cc_academic_year class_data) (cc_stream class_data) of
                 None \<Rightarrow> (Response 500 (Detail ''Error creating class''), d)
               | Some (new_class, d1) \<Rightarrow> (Response 201 (ClassBody (class_out_of new_class [])), d1)))"

fun like :: "string \<Rightarrow> string \<Rightarrow> bool" and like_any :: "string \<Rightarrow> string \<Rightarrow> bool" where
  \<comment> \<open>SQL \<open>LIKE\<close>: \<open>%\<close> stands for any text and \<open>_\<close> for any one character; the escape
      character is not modelled\<close>
  "like [] s = (s = [])"
| "like (p # ps) s =
     (if p = CHR ''%'' then like_any ps s
      else (case s of [] \<Rightarrow> False | c # cs \<Rightarrow> (p = CHR ''_'' \<or> p = c) \<and> like ps cs))"
| "like_any ps [] = like ps []"
| "like_any ps (c # cs) = (like ps (c # cs) \<or> like_any ps cs)"

definition ilike_contains :: "string \<Rightarrow> string \<Rightarrow> bool" where
  \<comment> \<open>\<open>func.lower(column).like(func.lower(f"%{term}%"))\<close>\<close>
  "ilike_contains column term = like (lower (''%'' @ term @ ''%'')) (lower column)"

definition get_classes :: "string \<Rightarrow> db \<Rightarrow> nat \<Rightarrow> nat \<Rightarrow> int option \<Rightarrow> string option
    \<Rightarrow> string option \<Rightarrow> class_out list" where
  \<comment> \<open>\<open>GET /classes\<close> with the query parameters page, limit, academic_year, level and
      search; the result is the field \<open>classes\<close> of the response\<close>
  "get_classes school d page limit academic_year level search =
     (let q0 = filter (\<lambda>c. row_school c = school) (db_classes d);
          q1 = (case academic_year of
                  Some y \<Rightarrow> if y \<noteq> 0 then filter (\<lambda>c. row_year c = y) q0 else q0
                | None \<Rightarrow> q0);
          q2 = (case level of
                  Some l \<Rightarrow> if l \<noteq> [] then filter (\<lambda>c. ilike_contains (row_level c) l) q1 else q1
                | None \<Rightarrow> q1);
          q3 = (case search of
                  Some t \<Rightarrow> if t \<noteq> []
                            then filter (\<lambda>c. ilike_contains (row_name c) t
                                            \<or> ilike_contains (row_level c) t) q2
                            else q2
                | None \<Rightarrow> q2);
          ordered = sort_key (\<lambda>c. (lower (row_level c), lower (row_name c))) q3;
          results = take limit (drop ((page - 1) * limit) ordered)
      in map (\<lambda>c. class_out_of c (streams_of d (row_id c))) results)"

definition add_stream :: "string \<Rightarrow> db \<Rightarrow> nat \<Rightarrow> string \<Rightarrow> body response \<times> db" where
  \<comment> \<open>Modelled from the spec: \<open>POST /classes/{class_id}/streams\<close>, whose handler is not
      part of the sources at hand: "add a stream to a class by name; returns conflict when
      the stream name duplicates an existing one (case-insensitively) for that class".\<close>
  "add_stream school d cid name =
     (if list_ex (\<lambda>r. srow_class r = cid \<and> lower (srow_name r) = lower name) (db_streams d)
      then (Response 409 NoBody, d)
      else (case insert_stream d school cid name of
              None \<Rightarrow> (Response 500 NoBody, d)
            | Some (r, d1) \<Rightarrow> (Response 201 NoBody, d1)))"

section \<open>The conversation and the administrative API as the actions see them\<close>

text \<open>
  A tracker is the snapshot of the conversation that an action receives: the latest
  message (text, intent, entities, metadata) and the slots. Slot values are strings.
  An action answers with the messages it utters and a list of slot events.

  The administrative API is a parameter of every action: a record of functions from the
  state of the backend to a response and the next state. \<open>Raised\<close> is the
  \<open>requests.exceptions.RequestException\<close> of a call that got no response. The requests
  that an action issues are recorded, with their headers and the status of the response,
  in a trace.
\<close>

record tracker =
  tr_text :: string
  tr_intent :: string
  tr_entities :: "(string \<times> string) list"
  tr_auth_token :: "string option"
  tr_school_id :: "string option"
  tr_slots :: "string \<Rightarrow> string option"

datatype event = SlotSet string "string option"

definition truthy :: "string option \<Rightarrow> bool" where
  \<comment> \<open>Python's truth value of a value that is \<open>None\<close> or a string\<close>
  "truthy v = (case v of None \<Rightarrow> False | Some s \<Rightarrow> s \<noteq> [])"

fun apply_event :: "event \<Rightarrow> (string \<Rightarrow> string option) \<Rightarrow> (string \<Rightarrow> string option)" where
  "apply_event (SlotSet name v) sl = sl(name := v)"

definition apply_events :: "event list \<Rightarrow> (string \<Rightarrow> string option) \<Rightarrow> (string \<Rightarrow> string option)" where
  "apply_events evs sl = fold apply_event evs sl"

record headers =
  h_authorization :: string
  h_school_id :: "string option"

record year_info =
  yi_year :: int
  yi_id :: nat

record term_info =
  ti_title :: string
  ti_id :: nat

record setup_data =
  sd_setup_complete :: bool
  sd_current_year :: "year_info option"
  sd_current_term :: "term_info option"

record student_create =
  sc_admission_no :: string
  sc_first_name :: string
  sc_last_name :: string
  sc_class_id :: nat

datatype student_body =
    StudentBody "string option"
  | StudentDetail string
  | StudentNoJson

datatype api_call =
    GetCurrentSetup
  | PostLevelStream class_create
  | GetClasses "string option" "int option"
  | PostClasses class_create
  | PostClassStream nat string
  | GetClassStreams nat
  | PostStudents student_create

type_synonym trace = "(headers \<times> api_call \<times> nat option) list"

record 'b backend =
  api_current_setup :: "'b \<Rightarrow> setup_data response"
  api_level_stream :: "'b \<Rightarrow> class_create \<Rightarrow> body response \<times> 'b"
  api_get_classes :: "'b \<Rightarrow> string option \<Rightarrow> int option \<Rightarrow> class_out list response"
  api_post_class :: "'b \<Rightarrow> class_create \<Rightarrow> body response \<times> 'b"
  api_post_stream :: "'b \<Rightarrow> nat \<Rightarrow> string \<Rightarrow> body response \<times> 'b"
  api_get_streams :: "'b \<Rightarrow> nat \<Rightarrow> string list response"
  api_post_student :: "'b \<Rightarrow> student_create \<Rightarrow> student_body response \<times> 'b"

datatype exn = RequestException | OtherException

datatype log_entry = LogWarning string | LogError string

definition status :: "'a response \<Rightarrow> nat option" where
  "status r = (case r of Raised \<Rightarrow> None | Response code b \<Rightarrow> Some code)"

definition get_current_setup :: "'b backend \<Rightarrow> headers \<Rightarrow> 'b \<times> trace
    \<Rightarrow> setup_data response \<times> 'b \<times> trace" where
  "get_current_setup be h w =
     (let r = api_current_setup be (fst w)
      in (r, fst w, snd w @ [(h, GetCurrentSetup, status r)]))"

definition post_level_stream :: "'b backend \<Rightarrow> headers \<Rightarrow> class_create \<Rightarrow> 'b \<times> trace
    \<Rightarrow> body response \<times> 'b \<times> trace" where
  "post_level_stream be h payload w =
     (case api_level_stream be (fst w) payload of
        (r, st) \<Rightarrow> (r, st, snd w @ [(h, PostLevelStream payload, status r)]))"

definition get_classes_call :: "'b backend \<Rightarrow> headers \<Rightarrow> string option \<Rightarrow> int option
    \<Rightarrow> 'b \<times> trace \<Rightarrow> class_out list response \<times> 'b \<times> trace" where
  "get_classes_call be h search year w =
     (let r = api_get_classes be (fst w) search year
      in (r, fst w, snd w @ [(h, GetClasses search year, status r)]))"

definition post_classes :: "'b backend \<Rightarrow> headers \<Rightarrow> class_create \<Rightarrow> 'b \<times> trace
    \<Rightarrow> body response \<times> 'b \<times> trace" where
  "post_classes be h payload w =
     (case api_post_class be (fst w) payload of
        (r, st) \<Rightarrow> (r, st, snd w @ [(h, PostClasses payload, status r)]))"

definition post_class_stream :: "'b backend \<Rightarrow> headers \<Rightarrow> nat \<Rightarrow> string \<Rightarrow> 'b \<times> trace
    \<Rightarrow> body response \<times> 'b \<times> trace" where
  "post_class_stream be h cid name w =
     (case api_post_stream be (fst w) cid name of
        (r, st) \<Rightarrow> (r, st, snd w @ [(h, PostClassStream cid name, status r)]))"


definition post_students :: "'b backend \<Rightarrow> headers \<Rightarrow> student_create \<Rightarrow> 'b \<times> trace
    \<Rightarrow> student_body response \<times> 'b \<times> trace" where
  "post_students be h payload w =
     (case api_post_student be (fst w) payload of
        (r, st) \<Rightarrow> (r, st, snd w @ [(h, PostStudents payload, status r)]))"

text \<open>
  The messages. A message that is plain ASCII text without interpolated values is kept as
  it is (\<open>Say\<close>); every other message is a constructor that carries the interpolated
  values. \<open>Report\<close> is a message built by joining lines.
\<close>

datatype report_line =
    CreatedWithStream string string int
  | EnrolIn string string
  | CreatedWithStreams string "string list" int
  | EnrolAny
  | StreamsExist "string list" string
  | StreamsFailed "string list"
  | CreateFailed string
  | StreamAdded string string int
  | StreamsAdded "string list" string int
  | StreamExists string string
  | StreamsExistFor "string list" string
  | AddFailed "string list"
  | NoneProcessed
  | NowHasStreams string "string list"

datatype utterance =
    Say string
  | NeedClassLevel
  | AcademicSetupRequired
  | AcademicSetupIncomplete
  | ClassCreated string int
  | ClassWarning string
  | ClassError string
  | CouldNotCreateOrFind string
  | Report "report_line list"
  | InvalidStreamNames string
  | ClassNotFound string int
  | CouldNotFindClass string
  | FullNameRequired
  | FullNameTooShort
  | FullNameOnlyOne string
  | FullNamePlease
  | AdmissionTooLong
  | ProvideValidClass
  | ClassNotInList string "class_out list"
  | StudentSetupRequired
  | StudentSetupIncomplete "string list"
  | CouldNotCreateClass string int
  | StudentCreated string string string string int string bool
  | DuplicateAdmission string
  | ValidationError "string option"
  | BadRequest "string option"
  | PermissionDenied
  | StudentCreateFailed "string option"
  | ConnectionError
  | UnexpectedError
  | ClassList "class_out list"
  | ConnectionTrouble
  | SlotPrompt string
  | ContinueWith string
  | NoPermissionToView
  | CouldNotRetrieveClasses
  | ConnectionTroubleMoment

text \<open>
  The API of one tenant over the tables of the classes router. The answers of the
  routers that are not among the sources at hand (academic setup, students) are
  parameters.
\<close>

definition classes_backend :: "string \<Rightarrow> setup_data response
    \<Rightarrow> (student_create \<Rightarrow> student_body response) \<Rightarrow> db backend" where
  "classes_backend school setup students =
     \<lparr>api_current_setup = (\<lambda>d. setup),
      api_level_stream = (\<lambda>d payload. case create_or_add_stream school d payload of
                                        (r, d1, logs) \<Rightarrow> (r, d1)),
      api_get_classes = (\<lambda>d search year. Response 200 (get_classes school d 1 20 year None search)),
      api_post_class = create_class school,
      api_post_stream = add_stream school,
      api_get_streams = (\<lambda>d cid. Response 200 (streams_of d cid)),
      api_post_student = (\<lambda>d payload. (students payload, d))\<rparr>"

section \<open>Resource resolver and action dispatcher: creating a class\<close>

text \<open>
  \<open>ActionCreateClass.run\<close> (\<open>rasa/actions/academic_actions.py\<close>, lines 1021 to 1520),
  in the order of the source: the correction of a year slot that holds a level, the
  parsing of level and streams, the lookup of the academic year, the creation of the
  base class, the loop over the streams and the report.
\<close>

definition clear_class_slots :: "event list" where
  "clear_class_slots =
     [SlotSet ''name'' None, SlotSet ''level'' None, SlotSet ''stream'' None,
      SlotSet ''academic_year'' None]"

definition year_as_level :: "string option \<Rightarrow> string option \<Rightarrow> string option
    \<Rightarrow> string option \<times> string option \<times> string option \<times> log_entry list" where
  \<comment> \<open>lines 1037 to 1049; the result is \<open>(class_name, level, academic_year)\<close> and the
      warning\<close>
  "year_as_level class_name level academic_year =
     (case academic_year of
        None \<Rightarrow> (class_name, level, academic_year, [])
      | Some a \<Rightarrow>
          if a = [] then (class_name, level, academic_year, [])
          else (case py_int a of
                  None \<Rightarrow> (class_name, level, academic_year, [])
                | Some year_val \<Rightarrow>
                    if year_val < 100
                    then (if \<not> truthy class_name then Some (str_int year_val) else class_name,
                          if \<not> truthy level then Some (str_int year_val) else level,
                          None, [LogWarning ''academic_year treated as level''])
                    else (class_name, level, academic_year, [])))"

definition merge_parsed :: "string option \<times> string option \<Rightarrow> string option \<times> string option
    \<Rightarrow> string option \<times> string option" where
  \<comment> \<open>\<open>if parsed_level: level = parsed_level\<close> and
      \<open>if parsed_stream and not stream: stream = parsed_stream\<close>\<close>
  "merge_parsed parsed cur =
     (if truthy (fst parsed) then fst parsed else fst cur,
      if truthy (snd parsed) \<and> \<not> truthy (snd cur) then snd parsed else snd cur)"

definition create_class_parse :: "tracker
    \<Rightarrow> (string \<times> string list \<times> string option) option \<times> log_entry list" where
  \<comment> \<open>lines 1032 to 1272: the level, the streams to add and the year slot, or \<open>None\<close>
      where the level is missing\<close>
  "create_class_parse tr =
     (case year_as_level (tr_slots tr ''name'') (tr_slots tr ''level'')
             (tr_slots tr ''academic_year'') of
        (class_name, level0, academic_year, logs) \<Rightarrow>
          (let message_text = lower (tr_text tr);
               ls1 = merge_parsed (parse_level_and_stream message_text)
                       (level0, tr_slots tr ''stream'');
               ls2 = (case class_name of
                        Some cn \<Rightarrow> if \<not> truthy (fst ls1) \<and> cn \<noteq> []
                                   then merge_parsed (parse_level_and_stream cn) ls1 else ls1
                      | None \<Rightarrow> ls1)
           in case fst ls2 of
                None \<Rightarrow> (None, logs)
              | Some l \<Rightarrow>
                  if l = [] then (None, logs)
                  else (let level = normalize_level_label l;
                            streams = extract_all_streams message_text level;
                            streams_to_add =
                              (case snd ls2 of
                                 Some stream \<Rightarrow>
                                   if streams = [] \<and> stream \<noteq> []
                                   then (if length stream = 1 then [upper stream]
                                         else [title stream])
                                   else streams
                               | None \<Rightarrow> streams)
                        in (Some (level, streams_to_add, academic_year), logs))))"

definition year_from_setup :: "'b backend \<Rightarrow> headers \<Rightarrow> 'b \<times> trace
    \<Rightarrow> (exn + (utterance + int)) \<times> 'b \<times> trace" where
  \<comment> \<open>lines 1287 to 1317: the current academic year, or the message of an early return\<close>
  "year_from_setup be h w =
     (case get_current_setup be h w of
        (Raised, w1) \<Rightarrow> (Inl RequestException, w1)
      | (Response code setup, w1) \<Rightarrow>
          if code \<noteq> 200 then (Inr (Inl AcademicSetupRequired), w1)
          else if \<not> sd_setup_complete setup then (Inr (Inl AcademicSetupIncomplete), w1)
          else (case sd_current_year setup of
                  Some current_year \<Rightarrow>
                    if yi_year current_year \<noteq> 0 then (Inr (Inr (yi_year current_year)), w1)
                    else (Inr (Inl (Say ''Could not determine current academic year.'')), w1)
                | None \<Rightarrow> (Inr (Inl (Say ''Could not determine current academic year.'')), w1)))"

definition current_academic_year :: "'b backend \<Rightarrow> headers \<Rightarrow> string option \<Rightarrow> 'b \<times> trace
    \<Rightarrow> (exn + (utterance + int)) \<times> 'b \<times> trace" where
  \<comment> \<open>lines 1286 to 1319; \<open>int(academic_year)\<close> raises on a slot that is no number\<close>
  "current_academic_year be h academic_year w =
     (case academic_year of
        None \<Rightarrow> year_from_setup be h w
      | Some a \<Rightarrow>
          if a = [] then year_from_setup be h w
          else (case py_int a of
                  Some y \<Rightarrow> (Inr (Inr y), w)
                | None \<Rightarrow> (Inl OtherException, w)))"

definition detail_or :: "body \<Rightarrow> string \<Rightarrow> string" where
  \<comment> \<open>\<open>error_data.get("detail", dflt)\<close>\<close>
  "detail_or b dflt = (case b of Detail d \<Rightarrow> d | _ \<Rightarrow> dflt)"

definition base_class_payload :: "string \<Rightarrow> int \<Rightarrow> class_create" where
  "base_class_payload level academic_year =
     \<lparr>cc_name = level, cc_level = level, cc_stream = None, cc_academic_year = academic_year\<rparr>"

definition ensure_base_class :: "'b backend \<Rightarrow> headers \<Rightarrow> string \<Rightarrow> int \<Rightarrow> 'b \<times> trace
    \<Rightarrow> (exn + nat option) \<times> 'b \<times> trace" where
  \<comment> \<open>"Step 1: Ensure base class exists", lines 1376 to 1417: the identifier of the base
      class, from the creation or from the list of classes\<close>
  "ensure_base_class be h level academic_year w =
     (case post_level_stream be h (base_class_payload level academic_year) w of
        (Raised, w1) \<Rightarrow> (Inl RequestException, w1)
      | (Response code b, w1) \<Rightarrow>
          if code = 201 then
            (case b of
               ClassBody class_data \<Rightarrow> (Inr (Some (co_id class_data)), w1)
             | Detail d \<Rightarrow> (Inr None, w1)
             | NoBody \<Rightarrow> (Inl RequestException, w1))
          else if code = 409 then
            (case get_classes_call be h (Some level) (Some academic_year) w1 of
               (Raised, w2) \<Rightarrow> (Inl RequestException, w2)
             | (Response code2 classes, w2) \<Rightarrow>
                 if code2 = 200
                 then (Inr (map_option co_id
                         (find (\<lambda>cls. co_level cls = level \<and> co_academic_year cls = academic_year)
                            classes)), w2)
                 else (Inr None, w2))
          else (Inr None, w1))"

fun add_streams :: "'b backend \<Rightarrow> headers \<Rightarrow> nat \<Rightarrow> string list
    \<Rightarrow> string list \<times> string list \<times> string list \<Rightarrow> 'b \<times> trace
    \<Rightarrow> (exn + string list \<times> string list \<times> string list) \<times> 'b \<times> trace" where
  \<comment> \<open>"Step 2: Add all streams", lines 1437 to 1455; the buckets are
      \<open>(added_streams, failed_streams, skipped_streams)\<close>\<close>
  "add_streams be h class_id [] buckets w = (Inr buckets, w)"
| "add_streams be h class_id (stream_name # rest) (added, failed, skipped) w =
     (case post_class_stream be h class_id stream_name w of
        (Raised, w1) \<Rightarrow> (Inl RequestException, w1)
      | (Response code b, w1) \<Rightarrow>
          add_streams be h class_id rest
            (if code = 201 then (added @ [stream_name], failed, skipped)
             else if code = 409 then (added, failed, skipped @ [stream_name])
             else (added, failed @ [stream_name], skipped)) w1)"

definition stream_report :: "string \<Rightarrow> int \<Rightarrow> string list \<Rightarrow> string list \<Rightarrow> string list
    \<Rightarrow> report_line list" where
  \<comment> \<open>lines 1458 to 1493, the lines of the response\<close>
  "stream_report level academic_year added skipped failed =
     (case added of
        [] \<Rightarrow> []
      | [s] \<Rightarrow> [CreatedWithStream level s academic_year, EnrolIn level s]
      | _ \<Rightarrow> [CreatedWithStreams level added academic_year, EnrolAny])
     @ (if skipped \<noteq> [] then [StreamsExist skipped level] else [])
     @ (if failed \<noteq> [] then [StreamsFailed failed] else [])
     @ (if added = [] \<and> skipped = [] then [CreateFailed level] else [])"

definition create_class_api :: "'b backend \<Rightarrow> headers \<Rightarrow> string \<Rightarrow> string list
    \<Rightarrow> string option \<Rightarrow> 'b \<times> trace
    \<Rightarrow> (exn + utterance list \<times> event list \<times> log_entry list) \<times> 'b \<times> trace" where
  \<comment> \<open>the body of the \<open>try\<close>, lines 1279 to 1502\<close>
  "create_class_api be h level streams_to_add academic_year w =
     (case current_academic_year be h academic_year w of
        (Inl e, w1) \<Rightarrow> (Inl e, w1)
      | (Inr (Inl msg), w1) \<Rightarrow> (Inr ([msg], [], []), w1)
      | (Inr (Inr year), w1) \<Rightarrow>
          if streams_to_add = [] then
            (case post_level_stream be h (base_class_payload level year) w1 of
               (Raised, w2) \<Rightarrow> (Inl RequestException, w2)
             | (Response code b, w2) \<Rightarrow>
                 if code = 201
                 then (Inr ([ClassCreated level year], clear_class_slots, []), w2)
                 else if code = 409
                 then (Inr ([ClassWarning (detail_or b (level @ '' already exists''))],
                            clear_class_slots, []), w2)
                 else (Inr ([ClassError (detail_or b (''Failed to create '' @ level))],
                            clear_class_slots, [LogError ''Class creation failed'']), w2))
          else
            (case ensure_base_class be h level year w1 of
               (Inl e, w2) \<Rightarrow> (Inl e, w2)
             | (Inr None, w2) \<Rightarrow> (Inr ([CouldNotCreateOrFind level], clear_class_slots, []), w2)
             | (Inr (Some class_id), w2) \<Rightarrow>
                 (case add_streams be h class_id streams_to_add ([], [], []) w2 of
                    (Inl e, w3) \<Rightarrow> (Inl e, w3)
                  | (Inr (added, failed, skipped), w3) \<Rightarrow>
                      (Inr ([Report (stream_report level year added skipped failed)],
                            clear_class_slots, []), w3))))"

definition bearer :: "string option \<Rightarrow> string" where
  "bearer tok = ''Bearer '' @ (case tok of Some t \<Rightarrow> t | None \<Rightarrow> ''None'')"

definition request_headers :: "tracker \<Rightarrow> headers" where
  "request_headers tr =
     \<lparr>h_authorization = bearer (tr_auth_token tr), h_school_id = tr_school_id tr\<rparr>"

definition ActionCreateClass_run :: "'b backend \<Rightarrow> tracker \<Rightarrow> 'b
    \<Rightarrow> (utterance list \<times> event list \<times> log_entry list) \<times> 'b \<times> trace" where
  "ActionCreateClass_run be tr st =
     (if \<not> truthy (tr_auth_token tr)
      then (([Say ''Authentication required. Please log in first.''], [], []), st, [])
      else (case create_class_parse tr of
              (None, logs) \<Rightarrow> (([NeedClassLevel], [], logs), st, [])
            | (Some (level, streams_to_add, academic_year), logs) \<Rightarrow>
                (case create_class_api be (request_headers tr) level streams_to_add
                        academic_year (st, []) of
                   (Inr (msgs, evs, lg), w) \<Rightarrow> ((msgs, evs, logs @ lg), w)
                 | (Inl RequestException, w) \<Rightarrow>
                     (([ConnectionTrouble], clear_class_slots,
                       logs @ [LogError ''Error creating class'']), w)
                 | (Inl OtherException, w) \<Rightarrow>
                     (([Say ''An error occurred. Please try again.''], clear_class_slots,
                       logs @ [LogError ''Error in ActionCreateClass'']), w))))"

text \<open>
  The part of \<open>ActionAddStreamToClass.run\<close> that talks to the API (lines 2121 to 2247),
  for the class name and the normalized stream names that the lines before it computed.
\<close>

fun add_streams_to :: "'b backend \<Rightarrow> headers \<Rightarrow> nat \<Rightarrow> string list
    \<Rightarrow> string list \<times> string list \<times> string list \<Rightarrow> 'b \<times> trace
    \<Rightarrow> (exn + string list \<times> string list \<times> string list) \<times> 'b \<times> trace" where
  \<comment> \<open>lines 2176 to 2188\<close>
  "add_streams_to be h class_id [] buckets w = (Inr buckets, w)"
| "add_streams_to be h class_id (stream_name # rest) (added, failed, skipped) w =
     (case post_class_stream be h class_id stream_name w of
        (Raised, w1) \<Rightarrow> (Inl RequestException, w1)
      | (Response code b, w1) \<Rightarrow>
          add_streams_to be h class_id rest
            (if code = 201 then (added @ [stream_name], failed, skipped)
             else if code = 409 then (added, failed, skipped @ [stream_name])
             else (added, failed @ [stream_name], skipped)) w1)"

definition add_report :: "string \<Rightarrow> int \<Rightarrow> string list \<Rightarrow> string list \<Rightarrow> string list
    \<Rightarrow> report_line list" where
  \<comment> \<open>lines 2191 to 2222\<close>
  "add_report class_display_name academic_year added skipped failed =
     (let messages =
        (case added of
           [] \<Rightarrow> []
         | [s] \<Rightarrow> [StreamAdded s class_display_name academic_year]
         | _ \<Rightarrow> [StreamsAdded added class_display_name academic_year])
        @ (case skipped of
             [] \<Rightarrow> []
           | [s] \<Rightarrow> [StreamExists s class_display_name]
           | _ \<Rightarrow> [StreamsExistFor skipped class_display_name])
        @ (if failed \<noteq> [] then [AddFailed failed] else [])
      in if messages = [] then [NoneProcessed] else messages)"




section \<open>Slot-filling state machine: the student creation form\<close>

text \<open>
  \<open>normalize_class_name\<close> and the validators of \<open>ValidateStudentCreationForm\<close>
  (\<open>rasa/actions/student_actions.py\<close>). A validator returns a dictionary from slot names
  to values, here a list of pairs, and the messages it utters.
\<close>

definition grade_letter_re :: regex where
  \<comment> \<open>\<open>^(grade|form|jss|pp|class)\s*(\d+)([a-zA-Z])$\<close>\<close>
  "grade_letter_re =
     seqs [Bol, Grp 1 (words [''grade'', ''form'', ''jss'', ''pp'', ''class'']),
           Star (Cls py_isspace), Grp 2 (Plus (Cls py_isdigit)), Grp 3 (Cls py_isalpha), Eol]"

definition number_letter_re :: regex where
  \<comment> \<open>\<open>^(\d+)([a-zA-Z])$\<close>\<close>
  "number_letter_re = seqs [Bol, Grp 1 (Plus (Cls py_isdigit)), Grp 2 (Cls py_isalpha), Eol]"

definition normalize_class_name :: "string \<Rightarrow> string" where
  "normalize_class_name class_name0 =
     (if class_name0 = [] then class_name0
      else let class_name = strip class_name0 in
        case re_match grade_letter_re True class_name of
          Some m \<Rightarrow> title (the_group m 1) @ '' '' @ the_group m 2 @ upper (the_group m 3)
        | None \<Rightarrow>
            (case re_match number_letter_re True class_name of
               Some m \<Rightarrow> the_group m 1 @ upper (the_group m 2)
             | None \<Rightarrow> title class_name))"

definition clear_interruptions :: "string list" where
  "clear_interruptions =
     [''goodbye'', ''greet'', ''cancel_form'', ''stop_form'', ''restart_form'',
      ''list_students'', ''list_classes'', ''check_academic_setup'',
      ''create_class'', ''create_academic_year'', ''search_student'']"

definition ws :: regex where
  \<comment> \<open>\<open>\s+\<close>\<close>
  "ws = Plus (Cls py_isspace)"

definition name_prefix_re :: regex where
  \<comment> \<open>\<open>^(the\s+student\s+name\s+is\s+|student\s+name\s+is\s+|name\s+is\s+|it\'?s\s+|\<close>
      \<open>the\s+name\s+is\s+|my\s+name\s+is\s+)\<close>\<close>
  "name_prefix_re =
     Seq Bol (Grp 1 (alts
       [seqs [Lit ''the'', ws, Lit ''student'', ws, Lit ''name'', ws, Lit ''is'', ws],
        seqs [Lit ''student'', ws, Lit ''name'', ws, Lit ''is'', ws],
        seqs [Lit ''name'', ws, Lit ''is'', ws],
        seqs [Lit ''it'', Opt (Lit [CHR 0x27]), Lit ''s'', ws],
        seqs [Lit ''the'', ws, Lit ''name'', ws, Lit ''is'', ws],
        seqs [Lit ''my'', ws, Lit ''name'', ws, Lit ''is'', ws]]))"

definition command_patterns :: "regex list" where
  \<comment> \<open>\<open>^(create|add|new|make|list|show|delete|remove)\s\<close>,
      \<open>^(cancel|stop|quit|exit|help)\s*$\<close>, \<open>^(yes|no|ok|okay)\s*$\<close>\<close>
  "command_patterns =
     [seqs [Bol, Grp 1 (words [''create'', ''add'', ''new'', ''make'', ''list'', ''show'',
                               ''delete'', ''remove'']), Cls py_isspace],
      seqs [Bol, Grp 1 (words [''cancel'', ''stop'', ''quit'', ''exit'', ''help'']),
            Star (Cls py_isspace), Eol],
      seqs [Bol, Grp 1 (words [''yes'', ''no'', ''ok'', ''okay'']), Star (Cls py_isspace), Eol]]"

definition candidate_name :: "string \<Rightarrow> string option \<Rightarrow> string option" where
  \<comment> \<open>"Step 1", lines 1477 to 1513: the raw text without a known prefix unless it is a
      command or a number, else the value of the slot\<close>
  "candidate_name text slot_value =
     (let message_text = strip text;
          from_text =
            (if message_text \<noteq> [] then
               (let clean_text = strip (re_sub name_prefix_re True [] message_text);
                    is_command = list_ex (\<lambda>pattern. re_match pattern False (lower clean_text) \<noteq> None)
                                   command_patterns
                in if \<not> is_command \<and> clean_text \<noteq> [] \<and> \<not> isdigit clean_text
                   then Some clean_text else None)
             else None)
      in case from_text of
           Some c \<Rightarrow> Some c
         | None \<Rightarrow> (case slot_value of
                       Some v \<Rightarrow> if v \<noteq> [] then Some (strip v) else None
                     | None \<Rightarrow> None))"

definition validate_student_name :: "string option \<Rightarrow> tracker
    \<Rightarrow> (string \<times> string option) list \<times> utterance list" where
  "validate_student_name slot_value tr =
     (if tr_intent tr \<in> set clear_interruptions then ([(''student_name'', None)], [])
      else case candidate_name (tr_text tr) slot_value of
             Some cand \<Rightarrow>
               if cand = [] then ([(''student_name'', None)], [FullNamePlease])
               else if length cand < 3 then ([(''student_name'', None)], [FullNameTooShort])
               else if length (split cand) < 2
               then ([(''student_name'', None)], [FullNameOnlyOne cand])
               else ([(''student_name'', Some cand)], [])
           | None \<Rightarrow> ([(''student_name'', None)], [FullNamePlease]))"

definition code_re :: "nat \<Rightarrow> nat \<Rightarrow> regex" where
  \<comment> \<open>\<open>^[A-Z0-9]{m,n}$\<close>, used with \<open>re.IGNORECASE\<close>\<close>
  "code_re m n = seqs [Bol, rep m n (Cls (\<lambda>c. py_isalpha c \<or> py_isdigit c)), Eol]"

definition auto_keywords :: "string list" where
  "auto_keywords =
     [''auto'', ''auto generate'', ''generate'', ''auto-generate'',
      ''automatic'', ''automatically'', ''generate one'', ''create one'',
      ''autogenerate'', ''make one'']"

definition admission_from_entities :: "(string \<times> string) list \<Rightarrow> string option" where
  \<comment> \<open>lines 1589 to 1599: the first \<open>class_name\<close> entity that looks like an admission
      number\<close>
  "admission_from_entities ents =
     map_option (\<lambda>e. upper (strip (snd e)))
       (find (\<lambda>e. fst e = ''class_name'' \<and> re_match (code_re 2 6) True (strip (snd e)) \<noteq> None) ents)"

definition admission_slot_value :: "string option \<Rightarrow> tracker \<Rightarrow> string option" where
  \<comment> \<open>lines 1589 to 1608: the slot value after the two corrections\<close>
  "admission_slot_value slot_value tr =
     (let v1 = (if \<not> truthy slot_value
                then (case admission_from_entities (tr_entities tr) of
                        Some v \<Rightarrow> Some v | None \<Rightarrow> slot_value)
                else slot_value);
          message_text = strip (tr_text tr)
      in if \<not> truthy v1 \<and> message_text \<noteq> []
         then (let clean_text = strip (replace ''#'' [] message_text)
               in if re_match (code_re 2 10) True clean_text \<noteq> None
                  then Some (upper clean_text) else v1)
         else v1)"

definition validate_admission_no :: "string option \<Rightarrow> tracker
    \<Rightarrow> (string \<times> string option) list \<times> utterance list" where
  "validate_admission_no slot_value0 tr =
     (case admission_slot_value slot_value0 tr of
        None \<Rightarrow> ([(''admission_no'', None)], [])
      | Some v \<Rightarrow>
          if v = [] then ([(''admission_no'', None)], [])
          else (let clean_lower = strip (lower v) in
                if clean_lower \<in> set auto_keywords \<or> contains ''auto'' clean_lower
                then ([(''admission_no'', Some ''AUTO_GENERATE'')], [])
                else (let clean_value = upper (strip (replace ''#'' [] v)) in
                      if length clean_value > 10
                      then ([(''admission_no'', None)], [AdmissionTooLong])
                      else ([(''admission_no'', Some clean_value)], []))))"

definition class_matches :: "string \<Rightarrow> class_out \<Rightarrow> bool" where
  \<comment> \<open>the body of the loop of lines 1717 to 1741\<close>
  "class_matches clean_lower cls =
     (let cls_name_lower = lower (co_name cls) in
      cls_name_lower = clean_lower
      \<or> list_ex (\<lambda>stream.
           lower (co_name cls @ '' '' @ stream) = clean_lower
           \<or> (CHR '' '' \<in> set clean_lower \<and> length (split clean_lower) \<ge> 2
              \<and> cls_name_lower = hd (split clean_lower)
              \<and> lower stream = last (split clean_lower))) (co_streams cls))"

definition validate_class_name :: "'b backend \<Rightarrow> string option \<Rightarrow> tracker \<Rightarrow> 'b
    \<Rightarrow> ((string \<times> string option) list \<times> utterance list) \<times> trace" where
  "validate_class_name be slot_value tr st =
     (case slot_value of
        None \<Rightarrow> (([(''class_name'', None)], []), [])
      | Some v \<Rightarrow>
          if v = [] then (([(''class_name'', None)], []), [])
          else (let clean_value = strip v; normalized = normalize_class_name clean_value in
            if length clean_value < 1 then (([(''class_name'', None)], [ProvideValidClass]), [])
            else if \<not> truthy (tr_auth_token tr) then (([(''class_name'', Some normalized)], []), [])
            else (case get_current_setup be (request_headers tr) (st, []) of
                    (Raised, w1) \<Rightarrow> (([(''class_name'', Some normalized)], []), snd w1)
                  | (Response code setup, w1) \<Rightarrow>
                      if code \<noteq> 200 then (([(''class_name'', Some normalized)], []), snd w1)
                      else (case sd_current_year setup of
                              None \<Rightarrow> (([(''class_name'', Some normalized)], []), snd w1)
                            | Some cy \<Rightarrow>
                                if yi_year cy = 0
                                then (([(''class_name'', Some normalized)], []), snd w1)
                                else (case get_classes_call be (request_headers tr) None
                                             (Some (yi_year cy)) w1 of
                                        (Raised, w2) \<Rightarrow>
                                          (([(''class_name'', Some normalized)], []), snd w2)
                                      | (Response code2 classes, w2) \<Rightarrow>
                                          if code2 \<noteq> 200
                                          then (([(''class_name'', Some normalized)], []), snd w2)
                                          else (let clean_lower =
                                                      strip (replace ''class '' [] (lower clean_value))
                                                in if list_ex (class_matches clean_lower) classes
                                                   then (([(''class_name'', Some normalized)], []), snd w2)
                                                   else if length classes > 0
                                                   then (([(''class_name'', None)],
                                                          [ClassNotInList clean_value classes]), snd w2)
                                                   else (([(''class_name'', Some normalized)], []),
                                                         snd w2)))))))"

definition validation_events :: "(string \<times> string option) list \<Rightarrow> event list" where
  \<comment> \<open>what the form does with the dictionary of a validator: one \<open>SlotSet\<close> per entry\<close>
  "validation_events d = map (\<lambda>(name, v). SlotSet name v) d"

section \<open>Action dispatcher: creating a student\<close>

text \<open>
  \<open>ActionCreateStudent.run\<close> (\<open>rasa/actions/student_actions.py\<close>, lines 69 to 397).
\<close>

definition clear_student_slots :: "event list" where
  "clear_student_slots =
     [SlotSet ''admission_no'' None, SlotSet ''student_name'' None, SlotSet ''class_name'' None]"

definition split_name :: "string list \<Rightarrow> string \<times> string" where
  \<comment> \<open>lines 113 to 125, for at least two name parts: \<open>(first_name, last_name)\<close>\<close>
  "split_name name_parts =
     (case name_parts of
        [a, b] \<Rightarrow> (a, b)
      | a # rest \<Rightarrow> (a, join '' '' rest)
      | [] \<Rightarrow> ([], []))"

definition student_result :: "string \<Rightarrow> string \<Rightarrow> string \<Rightarrow> string \<Rightarrow> int \<Rightarrow> string \<Rightarrow> bool
    \<Rightarrow> nat \<Rightarrow> student_body \<Rightarrow> utterance" where
  \<comment> \<open>lines 278 to 375: the message for the response to \<open>POST /students\<close>\<close>
  "student_result first_name last_name admission_no class_name current_year current_term
       class_was_created code b =
     (if code = 201 then
        StudentCreated first_name last_name
          (case b of StudentBody (Some a) \<Rightarrow> a | _ \<Rightarrow> admission_no)
          class_name current_year current_term class_was_created
      else if code = 409 then DuplicateAdmission admission_no
      else if code = 422 then
        ValidationError (case b of StudentDetail d \<Rightarrow> Some d
                         | StudentBody a \<Rightarrow> Some ''Unknown validation error''
                         | StudentNoJson \<Rightarrow> None)
      else if code = 400 then
        BadRequest (case b of StudentDetail d \<Rightarrow> Some d
                    | StudentBody a \<Rightarrow> Some ''Bad request''
                    | StudentNoJson \<Rightarrow> None)
      else if code = 403 then PermissionDenied
      else StudentCreateFailed (case b of StudentDetail d \<Rightarrow> Some d | _ \<Rightarrow> None))"

definition create_student_try :: "'b backend \<Rightarrow> headers \<Rightarrow> string \<Rightarrow> string \<Rightarrow> string
    \<Rightarrow> string \<Rightarrow> 'b \<times> trace \<Rightarrow> (exn + utterance list \<times> event list) \<times> 'b \<times> trace" where
  \<comment> \<open>the body of the \<open>try\<close>, lines 130 to 375, whose last case falls through to the
      \<open>return\<close> of line 393\<close>
  "create_student_try be h admission_no first_name last_name class_name w =
     (case get_current_setup be h w of
        (Raised, w1) \<Rightarrow> (Inl RequestException, w1)
      | (Response code setup, w1) \<Rightarrow>
          if code \<noteq> 200 then (Inr ([StudentSetupRequired], clear_student_slots), w1)
          else if \<not> sd_setup_complete setup then
            (Inr ([StudentSetupIncomplete
                     ((if sd_current_year setup = None then [''Academic Year''] else [])
                      @ (if sd_current_term setup = None then [''Academic Term''] else []))],
                  clear_student_slots), w1)
          else
            (case (sd_current_year setup, sd_current_term setup) of
               (Some cy, Some ct) \<Rightarrow>
                 (let current_year = yi_year cy; current_term = ti_title ct in
                  case get_classes_call be h (Some class_name) None w1 of
                    (Raised, w2) \<Rightarrow> (Inl RequestException, w2)
                  | (Response code2 classes, w2) \<Rightarrow>
                      if code2 \<noteq> 200
                      then (Inr ([Say ''Error checking classes. Please try again.''],
                                 clear_student_slots), w2)
                      else
                        (let found = find (\<lambda>cls. lower (normalize_class_name (co_name cls))
                                                    = lower class_name
                                                  \<and> co_academic_year cls = current_year) classes;
                             ensured =
                               (case found of
                                  Some cls \<Rightarrow> (Inr (Inr (co_id cls, False)), w2)
                                | None \<Rightarrow>
                                    (case post_classes be h
                                            \<lparr>cc_name = class_name, cc_level = class_name,
                                             cc_stream = None, cc_academic_year = current_year\<rparr> w2 of
                                       (Raised, w3) \<Rightarrow> (Inl RequestException, w3)
                                     | (Response code3 b, w3) \<Rightarrow>
                                         if code3 = 201 then
                                           (case b of
                                              ClassBody c \<Rightarrow> (Inr (Inr (co_id c, True)), w3)
                                            | Detail d \<Rightarrow> (Inl OtherException, w3)
                                            | NoBody \<Rightarrow> (Inl RequestException, w3))
                                         else (Inr (Inl (CouldNotCreateClass class_name current_year)),
                                               w3)))
                         in case ensured of
                              (Inl e, w3) \<Rightarrow> (Inl e, w3)
                            | (Inr (Inl msg), w3) \<Rightarrow> (Inr ([msg], clear_student_slots), w3)
                            | (Inr (Inr (class_id, class_was_created)), w3) \<Rightarrow>
                                (case post_students be h
                                        \<lparr>sc_admission_no = admission_no, sc_first_name = first_name,
                                         sc_last_name = last_name, sc_class_id = class_id\<rparr> w3 of
                                   (Raised, w4) \<Rightarrow> (Inl RequestException, w4)
                                 | (Response code4 sb, w4) \<Rightarrow>
                                     (Inr ([student_result first_name last_name admission_no
                                              class_name current_year current_term
                                              class_was_created code4 sb],
                                           clear_student_slots), w4))))
             | _ \<Rightarrow> (Inl OtherException, w1)))"

definition ActionCreateStudent_run :: "'b backend \<Rightarrow> tracker \<Rightarrow> 'b
    \<Rightarrow> (utterance list \<times> event list) \<times> 'b \<times> trace" where
  "ActionCreateStudent_run be tr st =
     (if \<not> truthy (tr_auth_token tr)
      then (([Say ''Authentication required. Please log in first.''], []), st, [])
      else
        (case (tr_slots tr ''admission_no'', tr_slots tr ''student_name'',
               tr_slots tr ''class_name'') of
           (Some admission_no, Some student_name, Some class_name0) \<Rightarrow>
             if student_name = [] \<or> class_name0 = [] \<or> admission_no = []
             then (([Say (''Missing required information. Please provide student name, ''
                          @ ''admission number, and class.'')], []), st, [])
             else
               (let class_name = normalize_class_name class_name0;
                    name_parts = split (strip student_name)
                in if length name_parts < 2
                   then (([FullNameRequired],
                          [SlotSet ''student_name'' None, SlotSet ''admission_no'' None,
                           SlotSet ''class_name'' None]), st, [])
                   else
                     (case create_student_try be (request_headers tr) admission_no
                             (fst (split_name name_parts)) (snd (split_name name_parts))
                             class_name (st, []) of
                        (Inr r, w) \<Rightarrow> (r, w)
                      | (Inl RequestException, w) \<Rightarrow> (([ConnectionError], clear_student_slots), w)
                      | (Inl OtherException, w) \<Rightarrow> (([UnexpectedError], clear_student_slots), w)))
         | _ \<Rightarrow> (([Say (''Missing required information. Please provide student name, ''
                        @ ''admission number, and class.'')], []), st, [])))"

section \<open>Interruptions of the form\<close>

text \<open>
  \<open>ActionListClasses.run\<close> (\<open>rasa/actions/academic_actions.py\<close>, lines 1526 to 1597) and
  \<open>ActionHandleFormInterruption.run\<close> (\<open>rasa/actions/student_actions.py\<close>, lines 1826 to
  1865).
\<close>

definition ActionListClasses_run :: "'b backend \<Rightarrow> tracker \<Rightarrow> 'b
    \<Rightarrow> (utterance list \<times> event list) \<times> 'b \<times> trace" where
  "ActionListClasses_run be tr st =
     (if \<not> truthy (tr_auth_token tr)
      then (([Say ''Authentication required. Please log in first.''], []), st, [])
      else (case get_classes_call be (request_headers tr) None None (st, []) of
              (Raised, w) \<Rightarrow> (([ConnectionTroubleMoment], []), w)
            | (Response code classes, w) \<Rightarrow>
                if code = 200 then
                  (if classes = [] then (([Say ''No classes found in the system.''], []), w)
                   else (([ClassList classes], []), w))
                else if code = 403 then (([NoPermissionToView], []), w)
                else (([CouldNotRetrieveClasses], []), w)))"

definition action_map :: "string \<Rightarrow> string option" where
  "action_map = map_of
     [(''list_classes'', ''action_list_classes''),
      (''list_students'', ''action_list_students''),
      (''check_academic_setup'', ''action_check_academic_setup''),
      (''list_academic_terms'', ''action_list_academic_terms''),
      (''get_current_term'', ''action_get_current_term''),
      (''ask_help'', ''action_help'')]"

definition ActionHandleFormInterruption_run :: "tracker \<Rightarrow> utterance list \<times> event list" where
  \<comment> \<open>the name found in \<open>action_map\<close> is not used: the branch on it is \<open>pass\<close>\<close>
  "ActionHandleFormInterruption_run tr =
     (let action_name = action_map (tr_intent tr) in
      case tr_slots tr ''requested_slot'' of
        Some requested_slot \<Rightarrow>
          if requested_slot = [] then ([], [])
          else if requested_slot \<in> set [''student_name'', ''admission_no'', ''class_name'']
          then ([SlotPrompt requested_slot], [])
          else ([ContinueWith requested_slot], [])
      | None \<Rightarrow> ([], []))"

definition interrupted_turn :: "(tracker \<Rightarrow> 'b \<Rightarrow> (utterance list \<times> event list) \<times> 'b \<times> trace)
    \<Rightarrow> tracker \<Rightarrow> 'b \<Rightarrow> (utterance list \<times> event list) \<times> 'b \<times> trace" where
  \<comment> \<open>Modelled from the spec: the dialogue rule that runs on an interruption of the form
      is configuration of the dialogue engine and not part of the sources at hand: "the
      interrupting intent is serviced via its own handler, and the state machine must
      re-prompt for the same slot afterward". The handler of the intent runs first, then
      \<open>action_handle_form_interruption\<close> on the slots that the handler left.\<close>
  "interrupted_turn handler tr st =
     (case handler tr st of
        ((msgs1, evs1), w) \<Rightarrow>
          (case ActionHandleFormInterruption_run
                  (tr\<lparr>tr_slots := apply_events evs1 (tr_slots tr)\<rparr>) of
             (msgs2, evs2) \<Rightarrow> ((msgs1 @ msgs2, evs1 @ evs2), w)))"

section \<open>Example conversations\<close>

definition empty_db :: db where
  "empty_db = \<lparr>db_classes = [], db_streams = [], db_counter = 0\<rparr>"

definition setup_2025 :: "setup_data response" where
  "setup_2025 =
     Response 200 \<lparr>sd_setup_complete = True,
                   sd_current_year = Some \<lparr>yi_year = 2025, yi_id = 1\<rparr>,
                   sd_current_term = Some \<lparr>ti_title = ''Term 1'', ti_id = 1\<rparr>\<rparr>"

definition school_api :: "db backend" where
  \<comment> \<open>the API of the tenant \<open>school-1\<close> in the year 2025; every student is accepted\<close>
  "school_api = classes_backend ''school-1'' setup_2025 (\<lambda>p. Response 201 (StudentBody None))"

definition duplicate_api :: "db backend" where
  \<comment> \<open>the same API where every admission number is already taken\<close>
  "duplicate_api = classes_backend ''school-1'' setup_2025 (\<lambda>p. Response 409 (StudentDetail ''exists''))"

definition user_headers :: headers where
  "user_headers = \<lparr>h_authorization = ''Bearer token'', h_school_id = Some ''school-1''\<rparr>"

definition no_slots :: "string \<Rightarrow> string option" where
  "no_slots = (\<lambda>name. None)"

definition message :: "string \<Rightarrow> string \<Rightarrow> string option \<Rightarrow> string option
    \<Rightarrow> (string \<Rightarrow> string option) \<Rightarrow> tracker" where
  \<comment> \<open>a turn with the given text, intent, token, school and slots, without entities\<close>
  "message txt intent tok school sl =
     \<lparr>tr_text = txt, tr_intent = intent, tr_entities = [], tr_auth_token = tok,
      tr_school_id = school, tr_slots = sl\<rparr>"

definition forbidden_api :: "unit backend" where
  \<comment> \<open>an API that answers every request with status 403\<close>
  "forbidden_api =
     \<lparr>api_current_setup = (\<lambda>u. Response 403 \<lparr>sd_setup_complete = False, sd_current_year = None,
                                                   sd_current_term = None\<rparr>),
      api_level_stream = (\<lambda>u payload. (Response 403 NoBody, u)),
      api_get_classes = (\<lambda>u search year. Response 403 []),
      api_post_class = (\<lambda>u payload. (Response 403 NoBody, u)),
      api_post_stream = (\<lambda>u cid name. (Response 403 NoBody, u)),
      api_get_streams = (\<lambda>u cid. Response 403 []),
      api_post_student = (\<lambda>u payload. (Response 403 StudentNoJson, u))\<rparr>"

definition red_exists_api :: "db backend" where
  \<comment> \<open>the API of the tenant where the request that adds the stream Red is answered with
      status 409 and every other stream is accepted\<close>
  "red_exists_api =
     school_api\<lparr>api_post_stream :=
       (\<lambda>d cid name. if name = ''Red'' then (Response 409 (Detail ''exists''), d)
                       else (Response 201 NoBody, d))\<rparr>"

definition blue_unreachable_api :: "db backend" where
  \<comment> \<open>the API of the tenant where every stream is accepted, but the request that adds the
      stream Blue gets no response\<close>
  "blue_unreachable_api =
     school_api\<lparr>api_post_stream :=
       (\<lambda>d cid name. if name = ''Blue'' then (Raised, d) else (Response 201 NoBody, d))\<rparr>"


definition red_db :: db where
  \<comment> \<open>Class 8 of 2025 with the stream Red\<close>
  "red_db =
     \<lparr>db_classes = [\<lparr>row_id = 0, row_school = ''school-1'', row_name = ''Class 8'',
                      row_level = ''Class 8'', row_year = 2025, row_stream = None,
                      row_created = 0\<rparr>],
      db_streams = [\<lparr>srow_id = 1, srow_school = ''school-1'', srow_class = 0,
                      srow_name = ''Red''\<rparr>],
      db_counter = 2\<rparr>"


definition student_slots :: "string \<Rightarrow> string option" where
  \<comment> \<open>the slots of a completed student creation form\<close>
  "student_slots =
     no_slots(''student_name'' := Some ''Joshua Mwangi'', ''admission_no'' := Some ''A12'',
              ''class_name'' := Some ''Grade 4'')"

definition collecting_admission_no :: "string \<Rightarrow> string option" where
  \<comment> \<open>the slots of the form while it asks for the admission number\<close>
  "collecting_admission_no =
     no_slots(''student_name'' := Some ''Joshua Mwangi'',
              ''requested_slot'' := Some ''admission_no'')"

section \<open>Entity normalizer on text beyond ASCII\<close>

text \<open>
  A Python \<open>str\<close> is a sequence of Unicode code points, and \<open>str.strip\<close>,
  \<open>str.title\<close>, \<open>str.lower\<close>, \<open>str.isdigit\<close> and the module \<open>re\<close> read the
  character data of each code point: its lower case and title case mappings, which may
  be longer than one code point, and whether it is cased, white space, a digit or a word
  character. This section is \<open>normalize_level_label\<close> on code points. It holds the
  character data of the code points of the ASCII range, of U+0130 (Latin capital letter I
  with dot above) and of U+0307 (combining dot above), and it gives a result for the texts
  made of these code points only (\<open>tabulated\<close>).
\<close>

definition tabulated :: "nat \<Rightarrow> bool" where
  "tabulated n = (n < 128 \<or> n = 0x130 \<or> n = 0x307)"

definition codes :: "string \<Rightarrow> nat list" where
  \<comment> \<open>the code points of a text written in ASCII\<close>
  "codes s = map of_char s"

definition u_isspace :: "nat \<Rightarrow> bool" where
  \<comment> \<open>\<open>str.isspace\<close> and the class \<open>\s\<close>\<close>
  "u_isspace n = ((9 \<le> n \<and> n \<le> 13) \<or> (28 \<le> n \<and> n \<le> 32))"

definition u_isdigit :: "nat \<Rightarrow> bool" where
  \<comment> \<open>\<open>str.isdigit\<close> and the class \<open>\d\<close>\<close>
  "u_isdigit n = (48 \<le> n \<and> n \<le> 57)"

definition u_iscased :: "nat \<Rightarrow> bool" where
  \<comment> \<open>the letters that have a case: A to Z, a to z and U+0130; U+0307 is a mark without
      case\<close>
  "u_iscased n = ((65 \<le> n \<and> n \<le> 90) \<or> (97 \<le> n \<and> n \<le> 122) \<or> n = 0x130)"

definition u_isword :: "nat \<Rightarrow> bool" where
  \<comment> \<open>the class \<open>\w\<close>: letters, digits and the underscore; a combining mark is none\<close>
  "u_isword n = (u_iscased n \<or> u_isdigit n \<or> n = 95)"

definition u_lower :: "nat \<Rightarrow> nat list" where
  \<comment> \<open>the lower case mapping; that of U+0130 is the letter i followed by U+0307\<close>
  "u_lower n = (if 65 \<le> n \<and> n \<le> 90 then [n + 32]
                else if n = 0x130 then [0x69, 0x307] else [n])"

definition u_title :: "nat \<Rightarrow> nat list" where
  \<comment> \<open>the title case mapping\<close>
  "u_title n = (if 97 \<le> n \<and> n \<le> 122 then [n - 32] else [n])"

definition u_fold :: "nat \<Rightarrow> nat" where
  \<comment> \<open>the lower case of one code point as \<open>re.IGNORECASE\<close> compares it: one code point
      for each\<close>
  "u_fold n = (if 65 \<le> n \<and> n \<le> 90 then n + 32 else if n = 0x130 then 0x69 else n)"

definition u_strip :: "nat list \<Rightarrow> nat list" where
  "u_strip s = rev (dropWhile u_isspace (rev (dropWhile u_isspace s)))"

definition u_str_isdigit :: "nat list \<Rightarrow> bool" where
  "u_str_isdigit s = (s \<noteq> [] \<and> list_all u_isdigit s)"

definition u_str_lower :: "nat list \<Rightarrow> nat list" where
  "u_str_lower s = concat (map u_lower s)"

fun u_title_from :: "bool \<Rightarrow> nat list \<Rightarrow> nat list" where
  \<comment> \<open>\<open>str.title\<close>: a code point after a cased one is put in lower case, every other one
      in title case; the flag says that the previous code point is cased\<close>
  "u_title_from prev [] = []"
| "u_title_from prev (c # cs) =
     (if prev then u_lower c else u_title c) @ u_title_from (u_iscased c) cs"

definition u_str_title :: "nat list \<Rightarrow> nat list" where
  "u_str_title s = u_title_from False s"

text \<open>
  The backtracking matcher of the section on regular expressions, on code points and
  without the record of the groups, which \<open>normalize_level_label\<close> does not read.
\<close>

datatype uregex =
    UEps
  | ULit "nat list"
  | UCls "nat \<Rightarrow> bool"
  | USeq uregex uregex
  | UAlt uregex uregex
  | UStar uregex
  | UBol
  | UEol
  | UWordB

type_synonym ustate = "nat option \<times> nat list"

definition u_lit_eq :: "bool \<Rightarrow> nat list \<Rightarrow> nat list \<Rightarrow> bool" where
  "u_lit_eq icase a b = (if icase then map u_fold a = map u_fold b else a = b)"

definition u_at_boundary :: "nat option \<Rightarrow> nat list \<Rightarrow> bool" where
  "u_at_boundary p s =
     ((case p of None \<Rightarrow> False | Some c \<Rightarrow> u_isword c)
        \<noteq> (case s of [] \<Rightarrow> False | c # _ \<Rightarrow> u_isword c))"

primrec u_star_iter :: "nat \<Rightarrow> (ustate \<Rightarrow> ustate list) \<Rightarrow> ustate \<Rightarrow> ustate list" where
  "u_star_iter 0 m st = [st]"
| "u_star_iter (Suc n) m st =
     concat (map (\<lambda>st'. if length (snd st') < length (snd st)
                         then u_star_iter n m st' else []) (m st)) @ [st]"

primrec u_matches :: "uregex \<Rightarrow> bool \<Rightarrow> ustate \<Rightarrow> ustate list" where
  "u_matches UEps icase = (\<lambda>st. [st])"
| "u_matches (ULit w) icase = (\<lambda>(p, s).
     if u_lit_eq icase (take (length w) s) w
     then [(if take (length w) s = [] then p else Some (last (take (length w) s)),
            drop (length w) s)] else [])"
| "u_matches (UCls P) icase = (\<lambda>(p, s).
     case s of [] \<Rightarrow> [] | c # cs \<Rightarrow> if P c then [(Some c, cs)] else [])"
| "u_matches (USeq a b) icase = (\<lambda>st. concat (map (u_matches b icase) (u_matches a icase st)))"
| "u_matches (UAlt a b) icase = (\<lambda>st. u_matches a icase st @ u_matches b icase st)"
| "u_matches (UStar a) icase = (\<lambda>st. u_star_iter (length (snd st)) (u_matches a icase) st)"
| "u_matches UBol icase = (\<lambda>(p, s). if p = None then [(p, s)] else [])"
| "u_matches UEol icase = (\<lambda>(p, s). if s = [] \<or> s = [10] then [(p, s)] else [])"
| "u_matches UWordB icase = (\<lambda>(p, s). if u_at_boundary p s then [(p, s)] else [])"

definition u_match_at :: "uregex \<Rightarrow> bool \<Rightarrow> nat option \<Rightarrow> nat list \<Rightarrow> ustate option" where
  "u_match_at r icase p s = (case u_matches r icase (p, s) of [] \<Rightarrow> None | st # _ \<Rightarrow> Some st)"

definition u_re_match :: "uregex \<Rightarrow> bool \<Rightarrow> nat list \<Rightarrow> ustate option" where
  "u_re_match r icase s = u_match_at r icase None s"

function u_sub_from :: "uregex \<Rightarrow> bool \<Rightarrow> nat list \<Rightarrow> nat option \<Rightarrow> nat list \<Rightarrow> nat list" where
  \<comment> \<open>\<open>re.sub\<close> with a constant replacement, for a pattern that matches no empty text\<close>
  "u_sub_from r icase repl p s =
     (case u_match_at r icase p s of
        Some (p', s') \<Rightarrow>
          if length s' < length s then repl @ u_sub_from r icase repl p' s'
          else (case s of [] \<Rightarrow> repl | c # cs \<Rightarrow> repl @ c # u_sub_from r icase repl (Some c) cs)
      | None \<Rightarrow> (case s of [] \<Rightarrow> [] | c # cs \<Rightarrow> c # u_sub_from r icase repl (Some c) cs))"
  by pat_completeness auto
termination
  by (relation "measure (\<lambda>(r, icase, repl, p, s). length s)") auto

declare u_sub_from.simps [simp del]

definition u_re_sub :: "uregex \<Rightarrow> bool \<Rightarrow> nat list \<Rightarrow> nat list \<Rightarrow> nat list" where
  "u_re_sub r icase repl s = u_sub_from r icase repl None s"

definition UPlus :: "uregex \<Rightarrow> uregex" where
  "UPlus r = USeq r (UStar r)"

definition u_level_keyword_re :: uregex where
  \<comment> \<open>\<open>^(form|jss|pp|standard)\s+\d+\<close>\<close>
  "u_level_keyword_re =
     USeq UBol
       (USeq (UAlt (ULit (codes ''form''))
                (UAlt (ULit (codes ''jss''))
                   (UAlt (ULit (codes ''pp'')) (ULit (codes ''standard'')))))
          (USeq (UPlus (UCls u_isspace)) (UPlus (UCls u_isdigit))))"

definition u_grade_re :: uregex where
  \<comment> \<open>\<open>\bgrade\s+\<close>\<close>
  "u_grade_re = USeq UWordB (USeq (ULit (codes ''grade'')) (UPlus (UCls u_isspace)))"

definition u_normalize :: "nat list \<Rightarrow> nat list" where
  \<comment> \<open>the body of \<open>normalize_level_label\<close>\<close>
  "u_normalize text0 =
     (if text0 = [] then text0
      else let text = u_strip text0 in
        if u_re_match u_level_keyword_re True text \<noteq> None then u_str_title text
        else if u_str_isdigit text then text
        else let text = u_re_sub u_grade_re True (codes ''Class '') text in
          if take 5 (u_str_lower text) = codes ''class'' then u_str_title text
          else u_str_title text)"

definition normalize_level_label_u :: "nat list \<Rightarrow> nat list option" where
  \<comment> \<open>\<open>normalize_level_label\<close> on the code points of the text; \<open>None\<close> for a text with a
      code point whose character data this section does not hold\<close>
  "normalize_level_label_u text =
     (if list_all tabulated text then Some (u_normalize text) else None)"

definition code_state :: "mstate \<Rightarrow> ustate" where
  \<comment> \<open>for the proofs: a state of the matcher on characters read as a state on code points\<close>
  "code_state st = (map_option of_char (fst st), codes (fst (snd st)))"

fun uregex_of :: "regex \<Rightarrow> uregex" where
  \<comment> \<open>for the proofs: a pattern on characters read as a pattern on code points\<close>
  "uregex_of Eps = UEps"
| "uregex_of (Lit w) = ULit (codes w)"
| "uregex_of (Cls P) = UCls (\<lambda>n. n < 256 \<and> P (char_of n))"
| "uregex_of (Seq a b) = USeq (uregex_of a) (uregex_of b)"
| "uregex_of (Alt a b) = UAlt (uregex_of a) (uregex_of b)"
| "uregex_of (Star a) = UStar (uregex_of a)"
| "uregex_of Bol = UBol"
| "uregex_of Eol = UEol"
| "uregex_of WordB = UWordB"
| "uregex_of (Grp n a) = uregex_of a"

section \<open>Characters, title case and strip\<close>

lemma mod_small: "n \<le> 90 \<Longrightarrow> (n + 32) mod 256 = (n + 32 :: nat)" by simp

lemmas char_defs = py_isspace_def py_isdigit_def py_isupper_def py_islower_def py_isalpha_def
  py_isword_def lower_char_def upper_char_def Let_def

lemma isspace_lower [simp]: "py_isspace (lower_char c) = py_isspace c"
  by (auto simp: char_defs)
lemma isdigit_lower [simp]: "py_isdigit (lower_char c) = py_isdigit c"
  by (auto simp: char_defs)
lemma isalpha_lower [simp]: "py_isalpha (lower_char c) = py_isalpha c"
  by (auto simp: char_defs)
lemma isalpha_upper [simp]: "py_isalpha (upper_char c) = py_isalpha c"
  by (auto simp: char_defs)
lemma isword_lower [simp]: "py_isword (lower_char c) = py_isword c"
  by (auto simp: char_defs)
lemma lower_lower [simp]: "lower_char (lower_char c) = lower_char c"
  by (auto simp: char_defs)
lemma upper_upper [simp]: "upper_char (upper_char c) = upper_char c"
  by (auto simp: char_defs)
lemma lower_upper [simp]: "lower_char (upper_char c) = lower_char c"
  by (auto simp: char_defs)
lemma lower_nonalpha: "\<not> py_isalpha c \<Longrightarrow> lower_char c = c"
  by (auto simp: char_defs)
lemma isspace_not_alpha: "py_isspace c \<Longrightarrow> \<not> py_isalpha c"
  by (auto simp: char_defs)
lemma isspace_not_word: "py_isspace c \<Longrightarrow> \<not> py_isword c"
  by (auto simp: char_defs)
lemma isdigit_not_alpha: "py_isdigit c \<Longrightarrow> \<not> py_isalpha c"
  by (auto simp: char_defs)
lemma isdigit_not_space: "py_isdigit c \<Longrightarrow> \<not> py_isspace c"
  by (auto simp: char_defs)



lemma title_from_lower [simp]: "map lower_char (title_from p s) = map lower_char s"
  by (induction s arbitrary: p) auto

lemma title_from_idem [simp]: "title_from p (title_from p s) = title_from p s"
  by (induction s arbitrary: p) auto

lemma title_from_length [simp]: "length (title_from p s) = length s"
  by (induction s arbitrary: p) auto

lemma title_from_Nil [simp]: "title_from p s = [] \<longleftrightarrow> s = []"
  by (cases s) auto

lemma lower_title [simp]: "lower (title s) = lower s"
  by (simp add: lower_def title_def)

lemma title_idem [simp]: "title (title s) = title s"
  by (simp add: title_def)

lemma lower_eq_length: "lower s = lower t \<Longrightarrow> length s = length t"
  unfolding lower_def by (rule map_eq_imp_length_eq)

lemma lower_char_eq_isspace: "lower_char a = lower_char b \<Longrightarrow> py_isspace a = py_isspace b"
  by (metis isspace_lower)

lemma lower_eq_isspace_hd:
  "lower s = lower t \<Longrightarrow> s \<noteq> [] \<Longrightarrow> py_isspace (hd s) = py_isspace (hd t)"
  by (cases s; cases t) (auto simp: lower_def dest: lower_char_eq_isspace)

lemma lower_eq_isspace_last:
  "lower s = lower t \<Longrightarrow> s \<noteq> [] \<Longrightarrow> py_isspace (last s) = py_isspace (last t)"
proof -
  assume a: "lower s = lower t" and n: "s \<noteq> []"
  then have tn: "t \<noteq> []" by (auto simp: lower_def)
  from a have "last (map lower_char s) = last (map lower_char t)" by (simp add: lower_def)
  with n tn have "lower_char (last s) = lower_char (last t)" by (simp add: last_map)
  then show ?thesis by (metis isspace_lower)
qed


lemma last_dropWhile: "dropWhile P xs \<noteq> [] \<Longrightarrow> last (dropWhile P xs) = last xs"
  by (induction xs) (auto split: if_splits)

lemma strip_unchanged:
  "s = [] \<or> (\<not> py_isspace (hd s) \<and> \<not> py_isspace (last s)) \<Longrightarrow> strip s = s"
proof (cases s)
  case Nil
  then show ?thesis by (simp add: strip_def)
next
  case (Cons c cs)
  assume "s = [] \<or> (\<not> py_isspace (hd s) \<and> \<not> py_isspace (last s))"
  with Cons have h: "\<not> py_isspace c" and l: "\<not> py_isspace (last s)" by auto
  from h Cons have 1: "dropWhile py_isspace s = s" by simp
  from l have 2: "dropWhile py_isspace (rev s) = rev s"
    by (simp add: dropWhile_eq_self_iff hd_rev)
  show ?thesis by (simp add: strip_def 1 2)
qed

lemma strip_shape:
  "strip x = [] \<or> (\<not> py_isspace (hd (strip x)) \<and> \<not> py_isspace (last (strip x)))"
proof (cases "strip x = []")
  case True
  then show ?thesis by simp
next
  case False
  let ?y = "dropWhile py_isspace x"
  let ?z = "dropWhile py_isspace (rev ?y)"
  have sx: "strip x = rev ?z" by (simp add: strip_def)
  with False have zn: "?z \<noteq> []" by simp
  have yn: "?y \<noteq> []"
  proof
    assume a: "?y = []"
    have "?z = []" by (simp only: a rev.simps dropWhile.simps)
    with zn show False by blast
  qed
  from zn have 1: "\<not> py_isspace (hd ?z)" by (rule hd_dropWhile)
  from zn have "last ?z = last (rev ?y)" by (rule last_dropWhile)
  also from yn have "\<dots> = hd ?y" by (simp add: last_rev)
  finally have 2: "last ?z = hd ?y" .
  from yn have 3: "\<not> py_isspace (hd ?y)" by (rule hd_dropWhile)
  from zn have "hd (strip x) = last ?z" by (simp add: sx hd_rev)
  moreover from zn have "last (strip x) = hd ?z" by (simp add: sx last_rev)
  ultimately show ?thesis using 1 2 3 by simp
qed

lemma strip_strip [simp]: "strip (strip x) = strip x"
  using strip_shape strip_unchanged by blast

section \<open>The matcher on the patterns of the level label\<close>

lemma star_iter_nonempty [simp]: "star_iter n m st \<noteq> []"
  by (cases n) auto

lemma star_cls_hd:
  "length s \<le> n \<Longrightarrow> \<exists>rest. star_iter n (matches (Cls P) ic) (p, s, g)
       = (last_char p (takeWhile P s), dropWhile P s, g) # rest"
proof (induction n arbitrary: p s)
  case 0
  then show ?case by (simp add: last_char_def)
next
  case (Suc n)
  show ?case
  proof (cases s)
    case Nil
    then show ?thesis by (simp add: last_char_def)
  next
    case (Cons c cs)
    show ?thesis
    proof (cases "P c")
      case True
      from Suc.prems Cons have "length cs \<le> n" by simp
      from Suc.IH [OF this, of "Some c"] obtain rest where
        r: "star_iter n (matches (Cls P) ic) (Some c, cs, g)
              = (last_char (Some c) (takeWhile P cs), dropWhile P cs, g) # rest" by blast
      from True Cons r show ?thesis by (simp add: last_char_def)
    next
      case False
      with Cons show ?thesis by (simp add: last_char_def)
    qed
  qed
qed

lemma star_cls_set:
  "st \<in> set (star_iter n (matches (Cls P) ic) (p, s, g))
   \<Longrightarrow> \<exists>j \<le> length (takeWhile P s). fst (snd st) = drop j s \<and> snd (snd st) = g"
proof (induction n arbitrary: p s)
  case 0
  then show ?case by auto
next
  case (Suc n)
  show ?case
  proof (cases s)
    case Nil
    with Suc.prems show ?thesis by auto
  next
    case (Cons c cs)
    show ?thesis
    proof (cases "P c")
      case True
      with Suc.prems Cons have
        "st \<in> set (star_iter n (matches (Cls P) ic) (Some c, cs, g)) \<or> st = (p, s, g)"
        by auto
      then show ?thesis
      proof
        assume "st \<in> set (star_iter n (matches (Cls P) ic) (Some c, cs, g))"
        from Suc.IH [OF this] obtain j where
          "j \<le> length (takeWhile P cs)" "fst (snd st) = drop j cs" "snd (snd st) = g" by blast
        with True Cons show ?thesis by (intro exI [of _ "Suc j"]) simp
      next
        assume "st = (p, s, g)"
        then show ?thesis by (intro exI [of _ 0]) simp
      qed
    next
      case False
      with Suc.prems Cons show ?thesis by auto
    qed
  qed
qed

lemma lower_grade: "lower ''grade'' = ''grade''" by code_simp

lemma match_at_grade:
  "match_at grade_re True p s =
     (if at_boundary p s \<and> grade_here s
      then Some (last_char None (takeWhile py_isspace (drop 5 s)),
                 dropWhile py_isspace (drop 5 s), [])
      else None)"
proof (cases "at_boundary p s \<and> grade_here s")
  case False
  then show ?thesis
    by (auto simp: match_at_def grade_re_def Plus_def lit_eq_def lower_grade grade_here_def
             eval_nat_numeral split: list.splits)
next
  case True
  then obtain c cs where d: "drop 5 s = c # cs" and c: "py_isspace c"
    by (auto simp: grade_here_def split: list.splits)
  obtain rest where
    r: "star_iter (length cs) (matches (Cls py_isspace) True) (Some c, cs, [])
          = (last_char (Some c) (takeWhile py_isspace cs), dropWhile py_isspace cs, []) # rest"
    using star_cls_hd [of cs "length cs"] by blast
  from True d c r show ?thesis
    by (simp add: match_at_def grade_re_def Plus_def lit_eq_def lower_grade grade_here_def
          last_char_def eval_nat_numeral)
qed



lemma isword_g: "lower_char c = CHR ''g'' \<Longrightarrow> py_isword c"
proof -
  assume "lower_char c = CHR ''g''"
  moreover have "py_isword (CHR ''g'')" by code_simp
  ultimately show ?thesis by (metis isword_lower)
qed

lemma grade_here_hd: "grade_here s \<Longrightarrow> \<exists>c cs. s = c # cs \<and> lower_char c = CHR ''g''"
  by (cases s) (auto simp: grade_here_def lower_def)

lemma grade_here_boundary: "grade_here s \<Longrightarrow> at_boundary p s = (\<not> isw p)"
  by (auto simp: at_boundary_def dest!: grade_here_hd dest: isword_g split: option.splits)

lemma grade_here_shorter:
  "grade_here s \<Longrightarrow> length (dropWhile py_isspace (drop 5 s)) < length s"
proof -
  assume "grade_here s"
  then have "drop 5 s \<noteq> []" by (auto simp: grade_here_def)
  then have "5 < length s" by simp
  moreover have "length (dropWhile py_isspace (drop 5 s)) \<le> length (drop 5 s)"
    by (rule length_dropWhile_le)
  ultimately show ?thesis by simp
qed

lemma grade_here_last_space:
  "grade_here s \<Longrightarrow> \<exists>q. last_char None (takeWhile py_isspace (drop 5 s)) = Some q \<and> py_isspace q"
proof -
  assume "grade_here s"
  then obtain c cs where d: "drop 5 s = c # cs" and c: "py_isspace c"
    by (auto simp: grade_here_def split: list.splits)
  let ?t = "takeWhile py_isspace (drop 5 s)"
  from d c have n: "?t \<noteq> []" by simp
  then have "last ?t \<in> set ?t" by simp
  then have "py_isspace (last ?t)" by (rule set_takeWhileD [THEN conjunct2])
  with n show ?thesis by (simp add: last_char_def)
qed

lemma sub_from_grade:
  "sub_from grade_re True ''Class '' p s = sub_grade (isw p) s"
proof (induction s arbitrary: p rule: length_induct)
  case (1 s)
  show ?case
  proof (cases "\<not> isw p \<and> grade_here s")
    case True
    then have gh: "grade_here s" and b: "at_boundary p s"
      by (simp_all add: grade_here_boundary)
    from grade_here_last_space [OF gh] obtain q where
      q: "last_char None (takeWhile py_isspace (drop 5 s)) = Some q" and qs: "py_isspace q"
      by blast
    have sh: "length (dropWhile py_isspace (drop 5 s)) < length s"
      by (rule grade_here_shorter [OF gh])
    from 1 sh have ih: "sub_from grade_re True ''Class '' (Some q) (dropWhile py_isspace (drop 5 s))
        = sub_grade (isw (Some q)) (dropWhile py_isspace (drop 5 s))" by blast
    from qs have nq: "\<not> py_isword q" by (rule isspace_not_word)
    have "sub_from grade_re True ''Class '' p s
        = ''Class '' @ sub_from grade_re True ''Class '' (Some q) (dropWhile py_isspace (drop 5 s))"
      by (subst sub_from.simps) (simp add: match_at_grade gh b q sh)
    also have "\<dots> = ''Class '' @ sub_grade False (dropWhile py_isspace (drop 5 s))"
      using ih nq by simp
    also have "\<dots> = sub_grade (isw p) s"
      using True by (subst (2) sub_grade.simps) simp
    finally show ?thesis .
  next
    case False
    then have nm: "\<not> (at_boundary p s \<and> grade_here s)"
      by (auto simp: grade_here_boundary)
    show ?thesis
    proof (cases s)
      case Nil
      with nm False show ?thesis
        by (subst sub_from.simps, subst sub_grade.simps) (simp add: match_at_grade)
    next
      case (Cons c cs)
      from 1 Cons have ih: "sub_from grade_re True ''Class '' (Some c) cs = sub_grade (isw (Some c)) cs"
        by simp
      have "sub_from grade_re True ''Class '' p s = c # sub_from grade_re True ''Class '' (Some c) cs"
        using nm Cons by (subst sub_from.simps) (auto simp add: match_at_grade)
      also have "\<dots> = c # sub_grade (py_isword c) cs" using ih by simp
      also have "\<dots> = sub_grade (isw p) s"
        using False Cons by (subst (2) sub_grade.simps) auto
      finally show ?thesis .
    qed
  qed
qed

lemma re_sub_grade: "re_sub grade_re True ''Class '' s = sub_grade False s"
  by (simp add: re_sub_def sub_from_grade)

lemma concat_map_nonempty: "concat (map f xs) \<noteq> [] \<longleftrightarrow> (\<exists>x \<in> set xs. f x \<noteq> [])"
  by (induction xs) auto

lemma plus_cls_set:
  assumes "st \<in> set (matches (Plus (Cls P)) ic (p, s, g))"
  shows "\<exists>c cs j. s = c # cs \<and> P c \<and> j \<le> length (takeWhile P cs) \<and> fst (snd st) = drop j cs"
proof (cases s)
  case Nil
  with assms show ?thesis by (simp add: Plus_def)
next
  case (Cons c cs)
  show ?thesis
  proof (cases "P c")
    case True
    with assms Cons have "st \<in> set (star_iter (length cs) (matches (Cls P) ic) (Some c, cs, g))"
      by (simp add: Plus_def)
    from star_cls_set [OF this] True Cons show ?thesis by blast
  next
    case False
    with assms Cons show ?thesis by (simp add: Plus_def)
  qed
qed

lemma plus_cls_nonempty:
  "matches (Plus (Cls P)) ic (p, s, g) \<noteq> [] \<longleftrightarrow> (\<exists>c cs. s = c # cs \<and> P c)"
  by (cases s) (auto simp: Plus_def)

lemma plus_cls_greedy:
  assumes "P c"
  shows "\<exists>p'. (p', dropWhile P cs, g) \<in> set (matches (Plus (Cls P)) ic (p, c # cs, g))"
proof -
  obtain rest where "star_iter (length cs) (matches (Cls P) ic) (Some c, cs, g)
      = (last_char (Some c) (takeWhile P cs), dropWhile P cs, g) # rest"
    using star_cls_hd [of cs "length cs"] by blast
  with assms show ?thesis by (auto simp: Plus_def)
qed


lemma lower_level_kws:
  "lower ''form'' = ''form''" "lower ''jss'' = ''jss''" "lower ''pp'' = ''pp''"
  "lower ''standard'' = ''standard''"
  by code_simp+

lemma alts_mem:
  "r \<in> set rs \<Longrightarrow> st \<in> set (matches r ic x) \<Longrightarrow> st \<in> set (matches (alts rs) ic x)"
proof (induction rs)
  case Nil
  from Nil(1) have False by simp
  then show ?case by (rule FalseE)
next
  case (Cons a rs)
  note outer = this
  show ?case
  proof (cases rs)
    case Nil
    with outer(2,3) show ?thesis by auto
  next
    case (Cons b rs')
    with outer show ?thesis by auto
  qed
qed

lemma alts_set:
  "st \<in> set (matches (alts rs) ic x) \<Longrightarrow> \<exists>r \<in> set rs. st \<in> set (matches r ic x)"
proof (induction rs)
  case Nil
  obtain p s g where "x = (p, s, g)" by (cases x) auto
  with Nil show ?case by (auto split: list.splits)
next
  case (Cons a rs)
  note outer = this
  show ?case
  proof (cases rs)
    case Nil
    with outer(2) show ?thesis by auto
  next
    case (Cons b rs')
    with outer show ?thesis by auto
  qed
qed

lemma grp_mem:
  "(p', s', g') \<in> set (matches a ic (p, s, g))
   \<Longrightarrow> \<exists>g''. (p', s', g'') \<in> set (matches (Grp n a) ic (p, s, g))"
  by force

lemma grp_set:
  assumes "st \<in> set (matches (Grp n a) ic (p, s, g))"
  shows "\<exists>st' \<in> set (matches a ic (p, s, g)). fst (snd st) = fst (snd st')"
proof -
  from assms obtain p' s' g' where m: "(p', s', g') \<in> set (matches a ic (p, s, g))"
    and "fst (snd st) = s'" by auto
  then have "fst (snd st) = fst (snd (p', s', g'))" by simp
  with m show ?thesis by blast
qed

lemma lower_kw: "k \<in> set level_kws \<Longrightarrow> lower k = k"
  by (auto simp: level_kws_def lower_level_kws)

lemma kw_group_set:
  assumes "st \<in> set (matches (Grp 1 (words level_kws)) True (p, s, g))"
  shows "\<exists>k \<in> set level_kws. lower (take (length k) s) = k \<and> fst (snd st) = drop (length k) s"
proof -
  from grp_set [OF assms] obtain st' where
    1: "st' \<in> set (matches (words level_kws) True (p, s, g))" and 2: "fst (snd st) = fst (snd st')"
    by blast
  from alts_set [OF 1 [unfolded words_def]] obtain k where
    k: "k \<in> set level_kws" and 3: "st' \<in> set (matches (Lit k) True (p, s, g))" by auto
  from 3 have "lower (take (length k) s) = lower k" and "fst (snd st') = drop (length k) s"
    by (auto simp: lit_eq_def split: if_splits)
  with k 2 lower_kw [OF k] show ?thesis by auto
qed

lemma kw_group_mem:
  assumes "k \<in> set level_kws" "lower (take (length k) s) = k"
  shows "\<exists>p' g'. (p', drop (length k) s, g') \<in> set (matches (Grp 1 (words level_kws)) True (p, s, g))"
proof -
  from assms lower_kw [OF assms(1)] have
    "(last_char p (take (length k) s), drop (length k) s, g) \<in> set (matches (Lit k) True (p, s, g))"
    by (simp add: lit_eq_def)
  moreover from assms(1) have "Lit k \<in> set (map Lit level_kws)" by simp
  ultimately have "(last_char p (take (length k) s), drop (length k) s, g)
      \<in> set (matches (words level_kws) True (p, s, g))"
    unfolding words_def by (rule alts_mem [rotated])
  from grp_mem [OF this] show ?thesis by blast
qed

lemma level_keyword_re_unfold:
  "level_keyword_re = Seq Bol (Seq (Grp 1 (words level_kws)) (Seq (Plus (Cls py_isspace)) (Plus (Cls py_isdigit))))"
  by (simp add: level_keyword_re_def level_kws_def)


lemma kw_match_shape: "re_match level_keyword_re True s \<noteq> None \<longleftrightarrow> kw_shape s"
proof
  assume "re_match level_keyword_re True s \<noteq> None"
  then have "matches level_keyword_re True (None, s, []) \<noteq> []"
    by (auto simp: re_match_def match_at_def split: list.splits)
  then obtain st1 where
    1: "st1 \<in> set (matches (Grp 1 (words level_kws)) True (None, s, []))" and
    2: "matches (Seq (Plus (Cls py_isspace)) (Plus (Cls py_isdigit))) True st1 \<noteq> []"
    by (auto simp: level_keyword_re_unfold concat_map_nonempty simp del: matches.simps(10))
  from kw_group_set [OF 1] obtain k where k: "k \<in> set level_kws"
    "lower (take (length k) s) = k" and s1: "fst (snd st1) = drop (length k) s" by blast
  obtain p1 s1 g1 where st1: "st1 = (p1, s1, g1)" by (cases st1) auto
  from 2 st1 obtain st2 where
    3: "st2 \<in> set (matches (Plus (Cls py_isspace)) True (p1, s1, g1))" and
    4: "matches (Plus (Cls py_isdigit)) True st2 \<noteq> []"
    by (auto simp: concat_map_nonempty)
  from plus_cls_set [OF 3] obtain c cs j where
    c: "s1 = c # cs" "py_isspace c" "j \<le> length (takeWhile py_isspace cs)"
    and s2: "fst (snd st2) = drop j cs" by blast
  obtain p2 g2 where st2: "st2 = (p2, drop j cs, g2)" using s2 by (cases st2) auto
  from 4 st2 obtain d r where d: "drop j cs = d # r" "py_isdigit d"
    by (auto simp: plus_cls_nonempty)
  have "take j (takeWhile py_isspace cs @ dropWhile py_isspace cs) = take j (takeWhile py_isspace cs)"
    using c(3) by (simp only: take_append) simp
  then have "take j cs = take j (takeWhile py_isspace cs)" by simp
  then have "set (take j cs) \<subseteq> set (takeWhile py_isspace cs)"
    by (simp only: set_take_subset)
  then have w: "list_all py_isspace (take j cs)"
    by (auto simp: list_all_iff dest: set_takeWhileD)
  have "s = take (length k) s @ drop (length k) s" by simp
  also have "drop (length k) s = c # cs" using s1 st1 c(1) by simp
  also have "cs = take j cs @ drop j cs" by simp
  also note d(1)
  finally have "s = take (length k) s @ c # take j cs @ d # r" .
  moreover from k have "lower (take (length k) s) \<in> set level_kws" by simp
  ultimately show "kw_shape s"
    unfolding kw_shape_def using c(2) w d(2) by blast
next
  assume "kw_shape s"
  then obtain k c w d r where s: "s = k @ c # w @ d # r" and k: "lower k \<in> set level_kws"
    and c: "py_isspace c" and w: "list_all py_isspace w" and d: "py_isdigit d"
    unfolding kw_shape_def by blast
  have lk: "length (lower k) = length k" by (simp add: lower_def)
  from s have tk: "lower (take (length (lower k)) s) = lower k" and dk: "drop (length (lower k)) s = c # w @ d # r"
    by (simp_all add: lk)
  from kw_group_mem [OF k tk] dk obtain p1 g1 where
    1: "(p1, c # w @ d # r, g1) \<in> set (matches (Grp 1 (words level_kws)) True (None, s, []))"
    by metis
  from d have nd: "\<not> py_isspace d" by (rule isdigit_not_space)
  from w nd have dw: "dropWhile py_isspace (w @ d # r) = d # r"
    by (induction w) auto
  from plus_cls_greedy [of py_isspace c "w @ d # r" g1 True p1, OF c] dw obtain p2 where
    2: "(p2, d # r, g1) \<in> set (matches (Plus (Cls py_isspace)) True (p1, c # w @ d # r, g1))"
    by auto
  from d have 3: "matches (Plus (Cls py_isdigit)) True (p2, d # r, g1) \<noteq> []"
    by (simp add: plus_cls_nonempty)
  from 2 3 have "matches (Seq (Plus (Cls py_isspace)) (Plus (Cls py_isdigit))) True
                    (p1, c # w @ d # r, g1) \<noteq> []"
    by (auto simp: concat_map_nonempty)
  with 1 have "matches level_keyword_re True (None, s, []) \<noteq> []"
    by (auto simp: level_keyword_re_unfold concat_map_nonempty simp del: matches.simps(10))
  then show "re_match level_keyword_re True s \<noteq> None"
    by (auto simp: re_match_def match_at_def split: list.splits)
qed

section \<open>The substitution of grade by Class\<close>

lemma grade_here_Nil [simp]: "\<not> grade_here []"
  by (simp add: grade_here_def lower_def)

lemma sub_grade_Nil [simp]: "sub_grade b [] = []"
  by (subst sub_grade.simps) simp

lemma sub_grade_match:
  "\<not> b \<Longrightarrow> grade_here s \<Longrightarrow>
   sub_grade b s = ''Class '' @ sub_grade False (dropWhile py_isspace (drop 5 s))"
  by (subst sub_grade.simps) simp

lemma sub_grade_copy:
  "\<not> (\<not> b \<and> grade_here (c # cs)) \<Longrightarrow> sub_grade b (c # cs) = c # sub_grade (py_isword c) cs"
  by (subst sub_grade.simps) auto

lemma sub_grade_True [simp]: "sub_grade True (c # cs) = c # sub_grade (py_isword c) cs"
  by (simp add: sub_grade_copy)

lemma sub_grade_eq_Nil [simp]: "sub_grade b s = [] \<longleftrightarrow> s = []"
proof (cases s)
  case Nil
  then show ?thesis by simp
next
  case (Cons c cs)
  then show ?thesis
    by (cases "\<not> b \<and> grade_here s") (simp_all add: sub_grade_match sub_grade_copy)
qed

lemma sub_grade_take:
  "CHR ''C'' \<notin> set (take n (sub_grade b s)) \<Longrightarrow> take n s = take n (sub_grade b s)"
proof (induction n arbitrary: b s)
  case 0
  then show ?case by simp
next
  case (Suc n)
  show ?case
  proof (cases s)
    case Nil
    then show ?thesis by simp
  next
    case (Cons c cs)
    show ?thesis
    proof (cases "\<not> b \<and> grade_here s")
      case True
      with Suc.prems show ?thesis by (simp add: sub_grade_match)
    next
      case False
      with Cons have e: "sub_grade b s = c # sub_grade (py_isword c) cs"
        by (simp add: sub_grade_copy)
      with Suc.prems have "CHR ''C'' \<notin> set (take n (sub_grade (py_isword c) cs))" by simp
      from Suc.IH [OF this] e Cons show ?thesis by simp
    qed
  qed
qed

lemma grade_here_take: "grade_here s = grade_here (take 6 s)"
  by (simp add: grade_here_def drop_take split: list.splits) 

lemma lower_take: "lower (take n s) = take n (lower s)"
  by (simp add: lower_def take_map)

lemma lower_drop: "lower (drop n s) = drop n (lower s)"
  by (simp add: lower_def drop_map)

lemma lower_idem [simp]: "lower (lower s) = lower s"
  by (simp add: lower_def)

lemma grade_here_lower: "grade_here (lower s) = grade_here s"
proof -
  have "(case drop 5 (lower s) of [] \<Rightarrow> False | c # cs \<Rightarrow> py_isspace c)
        = (case drop 5 s of [] \<Rightarrow> False | c # cs \<Rightarrow> py_isspace c)"
    by (cases "drop 5 s") (auto simp: lower_drop [symmetric], auto simp: lower_def)
  then show ?thesis
    by (simp add: grade_here_def lower_take [symmetric])
qed

lemma grade_here_cong: "lower s = lower t \<Longrightarrow> grade_here s = grade_here t"
  by (metis grade_here_lower)

lemma lower_C: "lower_char (CHR ''C'') = CHR ''c''" by code_simp

lemma grade_here_no_C: "grade_here s \<Longrightarrow> CHR ''C'' \<notin> set (take 6 s)"
proof
  assume g: "grade_here s" and m: "CHR ''C'' \<in> set (take 6 s)"
  have "take 6 s = take 5 s @ take 1 (drop 5 s)"
    by (metis add.commute numeral_plus_numeral one_plus_numeral semiring_norm(4) semiring_norm(5)
          take_add numeral_One)
  with m have "CHR ''C'' \<in> set (take 5 s) \<or> CHR ''C'' \<in> set (take 1 (drop 5 s))" by auto
  then show False
  proof
    assume "CHR ''C'' \<in> set (take 5 s)"
    then have "lower_char (CHR ''C'') \<in> set (lower (take 5 s))" by (simp add: lower_def)
    with g show False by (simp add: grade_here_def lower_C)
  next
    assume a: "CHR ''C'' \<in> set (take 1 (drop 5 s))"
    from g obtain c cs where d: "drop 5 s = c # cs" and c: "py_isspace c"
      by (auto simp: grade_here_def split: list.splits)
    from a d have "c = CHR ''C''" by simp
    moreover have "\<not> py_isspace (CHR ''C'')" by code_simp
    ultimately show False using c by simp
  qed
qed

lemma lower_class: "lower ''Class '' = ''class ''" by code_simp

lemma lower_class_chars:
  "lower_char (CHR ''l'') = CHR ''l''" "lower_char (CHR ''a'') = CHR ''a''"
  "lower_char (CHR ''s'') = CHR ''s''" "lower_char (CHR '' '') = CHR '' ''"
  by code_simp+

lemma isword_of_lower: "lower_char a = x \<Longrightarrow> py_isword a = py_isword x"
  by (metis isword_lower)

lemma class_prefix_fixed:
  assumes "lower t1 = ''class ''"
  shows "sub_grade b (t1 @ t2) = t1 @ sub_grade False t2"
proof -
  from assms obtain a1 a2 a3 a4 a5 a6 where
    t1: "t1 = [a1, a2, a3, a4, a5, a6]" and
    l: "lower_char a1 = CHR ''c''" "lower_char a2 = CHR ''l''" "lower_char a3 = CHR ''a''"
       "lower_char a4 = CHR ''s''" "lower_char a5 = CHR ''s''" "lower_char a6 = CHR '' ''"
    by (auto simp: lower_def map_eq_Cons_conv)
  have w: "py_isword (CHR ''c'')" "py_isword (CHR ''l'')" "py_isword (CHR ''a'')"
    "py_isword (CHR ''s'')" "\<not> py_isword (CHR '' '')" by code_simp+
  have iw: "py_isword a1" "py_isword a2" "py_isword a3" "py_isword a4" "py_isword a5"
    "\<not> py_isword a6"
    using isword_of_lower [OF l(1)] isword_of_lower [OF l(2)] isword_of_lower [OF l(3)]
      isword_of_lower [OF l(4)] isword_of_lower [OF l(5)] isword_of_lower [OF l(6)] w
    by simp_all
  have "\<not> grade_here (t1 @ t2)"
  proof
    assume "grade_here (t1 @ t2)"
    from grade_here_hd [OF this] l(1) show False by (simp add: t1)
  qed
  then have "sub_grade b (t1 @ t2) = a1 # sub_grade True ([a2, a3, a4, a5, a6] @ t2)"
    using iw(1) by (simp add: t1 sub_grade_copy)
  also have "\<dots> = t1 @ sub_grade False t2"
    using iw by (simp add: t1)
  finally show ?thesis .
qed

lemma sub_grade_fixed:
  "lower t = lower (sub_grade b s) \<Longrightarrow> sub_grade b t = t"
proof (induction b s arbitrary: t rule: sub_grade.induct)
  case (1 b s)
  show ?case
  proof (cases "\<not> b \<and> grade_here s")
    case True
    let ?r = "dropWhile py_isspace (drop 5 s)"
    from True have e: "sub_grade b s = ''Class '' @ sub_grade False ?r"
      by (simp add: sub_grade_match)
    with "1.prems" have "lower t = ''class '' @ lower (sub_grade False ?r)"
      by (simp add: lower_def lower_C lower_class_chars)
    then have t1: "lower (take 6 t) = ''class ''"
      and t2: "lower (drop 6 t) = lower (sub_grade False ?r)"
      by (simp_all add: lower_take lower_drop)
    from "1.IH"(1) [OF True t2] have "sub_grade False (drop 6 t) = drop 6 t" .
    with class_prefix_fixed [OF t1, of b "drop 6 t"] show ?thesis by simp
  next
    case False
    show ?thesis
    proof (cases s)
      case Nil
      with "1.prems" show ?thesis by (simp add: lower_def)
    next
      case (Cons c cs)
      with False have e: "sub_grade b s = c # sub_grade (py_isword c) cs"
        by (simp add: sub_grade_copy)
      with "1.prems" obtain c' t' where t: "t = c' # t'" and c': "lower_char c' = lower_char c"
        and t': "lower t' = lower (sub_grade (py_isword c) cs)"
        unfolding lower_def by (auto simp: map_eq_Cons_conv)
      from "1.IH"(2) [OF False Cons t'] have ih: "sub_grade (py_isword c) t' = t'" .
      have nm: "\<not> (\<not> b \<and> grade_here t)"
      proof
        assume a: "\<not> b \<and> grade_here t"
        from "1.prems" have "grade_here t = grade_here (sub_grade b s)" by (rule grade_here_cong)
        with a have g: "grade_here (sub_grade b s)" by blast
        then have "CHR ''C'' \<notin> set (take 6 (sub_grade b s))" by (rule grade_here_no_C)
        then have tk: "take 6 s = take 6 (sub_grade b s)" by (rule sub_grade_take)
        have "grade_here s = grade_here (take 6 s)" by (rule grade_here_take)
        also have "\<dots> = grade_here (take 6 (sub_grade b s))" by (simp only: tk)
        also have "\<dots> = grade_here (sub_grade b s)" by (rule grade_here_take [symmetric])
        finally have "grade_here s" using g by simp
        with a False show False by simp
      qed
      have "py_isword c' = py_isword (lower_char c')" by simp
      also have "\<dots> = py_isword c" by (simp only: c' isword_lower)
      finally have "py_isword c' = py_isword c" .
      with nm t ih show ?thesis by (simp add: sub_grade_copy)
    qed
  qed
qed

lemma sub_grade_last:
  "s \<noteq> [] \<Longrightarrow> \<not> py_isspace (last s) \<Longrightarrow> last (sub_grade b s) = last s"
proof (induction b s rule: sub_grade.induct)
  case (1 b s)
  show ?case
  proof (cases "\<not> b \<and> grade_here s")
    case True
    let ?r = "dropWhile py_isspace (drop 5 s)"
    from True have d: "drop 5 s \<noteq> []" by (auto simp: grade_here_def)
    then have ld: "last (drop 5 s) = last s" by simp
    have rn: "?r \<noteq> []"
    proof
      assume "?r = []"
      then have "\<forall>x \<in> set (drop 5 s). py_isspace x" by simp
      moreover from d have "last (drop 5 s) \<in> set (drop 5 s)" by (rule last_in_set)
      ultimately have "py_isspace (last (drop 5 s))" by blast
      with ld "1.prems" show False by simp
    qed
    then have lr: "last ?r = last s" using ld by (simp add: last_dropWhile)
    from "1.IH"(1) [OF True rn] lr "1.prems" have "last (sub_grade False ?r) = last s" by simp
    moreover from rn have xn: "sub_grade False ?r \<noteq> []" by simp
    moreover from True have "sub_grade b s = ''Class '' @ sub_grade False ?r"
      by (simp add: sub_grade_match)
    ultimately show ?thesis by (simp only: last_appendR [OF xn])
  next
    case False
    from "1.prems" obtain c cs where s: "s = c # cs" by (cases s) auto
    with False have e: "sub_grade b s = c # sub_grade (py_isword c) cs"
      by (simp add: sub_grade_copy)
    show ?thesis
    proof (cases "cs = []")
      case True
      with e s show ?thesis by simp
    next
      case cn: False
      with "1.prems" s have "\<not> py_isspace (last cs)" by simp
      from "1.IH"(2) [OF False s cn this] cn e s show ?thesis by simp
    qed
  qed
qed

lemma sub_grade_hd:
  "s \<noteq> [] \<Longrightarrow> \<not> py_isspace (hd s) \<Longrightarrow> \<not> py_isspace (hd (sub_grade b s))"
proof (cases "\<not> b \<and> grade_here s")
  case True
  assume "s \<noteq> []" "\<not> py_isspace (hd s)"
  have "\<not> py_isspace (CHR ''C'')" by code_simp
  with True show ?thesis by (simp add: sub_grade_match)
next
  case False
  assume "s \<noteq> []" "\<not> py_isspace (hd s)"
  with False show ?thesis by (cases s) (simp_all add: sub_grade_copy)
qed

section \<open>Entity normalizer: idempotence\<close>

lemma list_all_isspace_lower: "list_all py_isspace (lower w) = list_all py_isspace w"
  by (induction w) (simp_all add: lower_def)

lemma lower_append: "lower (a @ b) = lower a @ lower b"
  by (simp add: lower_def)

lemma lower_Cons: "lower (c # b) = lower_char c # lower b"
  by (simp add: lower_def)

lemma lower_eq_appendE:
  assumes "lower t = lower (a @ b)"
  obtains a' b' where "t = a' @ b'" "lower a' = lower a" "lower b' = lower b"
proof -
  from assms have e: "map lower_char t = map lower_char a @ map lower_char b"
    by (simp add: lower_def)
  have "map lower_char (take (length a) t) = take (length a) (map lower_char t)"
    by (simp add: take_map)
  with e have 1: "lower (take (length a) t) = lower a" by (simp add: lower_def)
  have "map lower_char (drop (length a) t) = drop (length a) (map lower_char t)"
    by (simp add: drop_map)
  with e have 2: "lower (drop (length a) t) = lower b" by (simp add: lower_def)
  note 1 2
  moreover have "t = take (length a) t @ drop (length a) t" by simp
  ultimately show ?thesis using that by blast
qed

lemma lower_eq_ConsE:
  assumes "lower t = lower (c # b)"
  obtains c' b' where "t = c' # b'" "lower_char c' = lower_char c" "lower b' = lower b"
  using assms by (cases t) (auto simp: lower_def)

lemma kw_shape_cong:
  assumes "lower s = lower t" "kw_shape s"
  shows "kw_shape t"
proof -
  from assms(2) obtain k c w d r where s: "s = k @ c # w @ d # r"
    and k: "lower k \<in> set level_kws"
    and c: "py_isspace c" and w: "list_all py_isspace w" and d: "py_isdigit d"
    unfolding kw_shape_def by blast
  from assms(1) s have "lower t = lower (k @ c # w @ d # r)" by simp
  then obtain k' x1 where t1: "t = k' @ x1" "lower k' = lower k" "lower x1 = lower (c # w @ d # r)"
    by (rule lower_eq_appendE)
  from t1(3) obtain c' x2 where t2: "x1 = c' # x2" "lower_char c' = lower_char c"
    "lower x2 = lower (w @ d # r)" by (rule lower_eq_ConsE)
  from t2(3) obtain w' x3 where t3: "x2 = w' @ x3" "lower w' = lower w" "lower x3 = lower (d # r)"
    by (rule lower_eq_appendE)
  from t3(3) obtain d' r' where t4: "x3 = d' # r'" "lower_char d' = lower_char d"
    by (rule lower_eq_ConsE)
  from t2(2) c have c': "py_isspace c'" by (metis isspace_lower)
  from t4(2) d have d': "py_isdigit d'" by (metis isdigit_lower)
  from t3(2) w have w': "list_all py_isspace w'" by (metis list_all_isspace_lower)
  from t1 t2 t3 t4 have "t = k' @ c' # w' @ d' # r'" by simp
  with t1(2) k c' w' d' show ?thesis unfolding kw_shape_def by metis
qed

lemma kw_no_C: "lower k \<in> set level_kws \<Longrightarrow> CHR ''C'' \<notin> set k"
proof
  assume k: "lower k \<in> set level_kws" and m: "CHR ''C'' \<in> set k"
  from m have "lower_char (CHR ''C'') \<in> set (lower k)" by (simp add: lower_def)
  then have "CHR ''c'' \<in> set (lower k)" by (simp add: lower_C)
  with k show False by (auto simp: level_kws_def)
qed

lemma C_not_space: "\<not> py_isspace (CHR ''C'')" by code_simp
lemma C_not_digit: "\<not> py_isdigit (CHR ''C'')" by code_simp

lemma kw_shape_sub_grade:
  assumes "kw_shape (sub_grade b s)"
  shows "kw_shape s"
proof -
  from assms obtain k c w d r where y: "sub_grade b s = k @ c # w @ d # r"
    and k: "lower k \<in> set level_kws"
    and c: "py_isspace c" and w: "list_all py_isspace w" and d: "py_isdigit d"
    unfolding kw_shape_def by blast
  let ?u = "k @ c # w @ [d]"
  have tu: "take (length ?u) (sub_grade b s) = ?u" by (simp add: y)
  have "CHR ''C'' \<notin> set ?u"
    using kw_no_C [OF k] c w d C_not_space C_not_digit by (auto simp: list_all_iff)
  with tu have "CHR ''C'' \<notin> set (take (length ?u) (sub_grade b s))" by simp
  then have "take (length ?u) s = take (length ?u) (sub_grade b s)" by (rule sub_grade_take)
  with tu have "take (length ?u) s = ?u" by simp
  then have "s = ?u @ drop (length ?u) s" by (metis append_take_drop_id)
  then have "s = k @ c # w @ d # drop (length ?u) s" by simp
  with k c w d show ?thesis unfolding kw_shape_def by blast
qed

lemma isdigit_sub_grade:
  assumes "isdigit (title (sub_grade False s))"
  shows "isdigit s"
proof -
  let ?z = "sub_grade False s"
  from assms have n: "?z \<noteq> []" and a: "list_all py_isdigit (title ?z)"
    by (auto simp: isdigit_def title_def)
  have "list_all py_isdigit (lower (title ?z))"
    using a by (induction "title ?z") (auto simp: lower_def list_all_iff)
  then have "list_all py_isdigit (lower ?z)" by simp
  then have z: "list_all py_isdigit ?z" by (auto simp: lower_def list_all_iff)
  then have "CHR ''C'' \<notin> set ?z" using C_not_digit by (auto simp: list_all_iff)
  then have "CHR ''C'' \<notin> set (take (Suc (length ?z)) ?z)" by simp
  then have "take (Suc (length ?z)) s = take (Suc (length ?z)) ?z" by (rule sub_grade_take)
  then have e: "take (Suc (length ?z)) s = ?z" by simp
  then have "length (take (Suc (length ?z)) s) = length ?z" by simp
  then have "length s \<le> length ?z" by (simp add: min_def split: if_splits)
  with e have "s = ?z" by simp
  with n z show ?thesis by (simp add: isdigit_def)
qed

lemma kw_shape_nonempty: "kw_shape s \<Longrightarrow> s \<noteq> []"
  by (auto simp: kw_shape_def)

lemma stripped_title:
  assumes "s \<noteq> []" "\<not> py_isspace (hd s)" "\<not> py_isspace (last s)"
  shows "strip (title s) = title s"
proof -
  have l: "lower (title s) = lower s" by simp
  from assms(1) have n: "title s \<noteq> []" by (simp add: title_def)
  from lower_eq_isspace_hd [OF l n] assms(2) have "\<not> py_isspace (hd (title s))" by simp
  moreover from lower_eq_isspace_last [OF l n] assms(3) have "\<not> py_isspace (last (title s))" by simp
  ultimately show ?thesis by (simp add: strip_unchanged)
qed

lemma nll_unfold:
  "normalize_level_label x =
     (if x = [] then x
      else if kw_shape (strip x) then title (strip x)
      else if isdigit (strip x) then strip x
      else title (sub_grade False (strip x)))"
  unfolding normalize_level_label_def Let_def kw_match_shape re_sub_grade by simp

text \<open>
  On characters, \<open>normalize_level_label\<close> gives a text that it leaves unchanged.
\<close>

lemma normalize_chars_idempotent:
  "normalize_level_label (normalize_level_label x) = normalize_level_label x"
proof (cases "x = []")
  case True
  then show ?thesis by (simp add: nll_unfold)
next
  case xn: False
  let ?s = "strip x"
  have shape: "?s = [] \<or> (\<not> py_isspace (hd ?s) \<and> \<not> py_isspace (last ?s))"
    by (rule strip_shape)
  show ?thesis
  proof (cases "kw_shape ?s")
    case True
    then have sn: "?s \<noteq> []" by (rule kw_shape_nonempty)
    from xn True have r: "normalize_level_label x = title ?s"
      by (simp add: nll_unfold)
    from sn shape have st: "strip (title ?s) = title ?s" by (simp add: stripped_title)
    have "kw_shape (title ?s)" by (rule kw_shape_cong [OF _ True]) simp
    with sn st have "normalize_level_label (title ?s) = title (title ?s)"
      by (simp add: nll_unfold)
    with r show ?thesis by simp
  next
    case nk: False
    show ?thesis
    proof (cases "isdigit ?s")
      case True
      with xn nk have r: "normalize_level_label x = ?s"
        by (simp add: nll_unfold)
      from True have "?s \<noteq> []" by (simp add: isdigit_def)
      with nk True have "normalize_level_label ?s = ?s"
        by (simp add: nll_unfold)
      with r show ?thesis by simp
    next
      case nd: False
      let ?z = "sub_grade False ?s"
      let ?y = "title ?z"
      from xn nk nd have r: "normalize_level_label x = ?y"
        by (simp add: nll_unfold)
      show ?thesis
      proof (cases "?y = []")
        case True
        with r show ?thesis by (simp add: nll_unfold)
      next
        case yn: False
        then have zn: "?z \<noteq> []" by (simp add: title_def)
        then have sn: "?s \<noteq> []" by simp
        with shape have hs: "\<not> py_isspace (hd ?s)" and ls: "\<not> py_isspace (last ?s)" by simp_all
        from sub_grade_hd [OF sn hs] have hz: "\<not> py_isspace (hd ?z)" .
        from sub_grade_last [OF sn ls] ls have lz: "\<not> py_isspace (last ?z)" by simp
        from zn hz lz have st: "strip ?y = ?y" by (rule stripped_title)
        have nky: "\<not> kw_shape ?y"
        proof
          assume "kw_shape ?y"
          then have "kw_shape ?z" by (rule kw_shape_cong [rotated]) simp
          then have "kw_shape ?s" by (rule kw_shape_sub_grade)
          with nk show False by simp
        qed
        have ndy: "\<not> isdigit ?y"
        proof
          assume "isdigit ?y"
          then have "isdigit ?s" by (rule isdigit_sub_grade)
          with nd show False by simp
        qed
        have fx: "sub_grade False ?y = ?y" by (rule sub_grade_fixed) simp
        from yn st nky ndy fx have "normalize_level_label ?y = title ?y"
          by (simp add: nll_unfold)
        with r show ?thesis by simp
      qed
    qed
  qed
qed

section \<open>Entity normalizer: from characters to code points\<close>

text \<open>
  On a text of the ASCII range the functions on code points compute what the functions on
  characters compute, character by character and match by match.
\<close>

lemma of_char_less_256: "(of_char (c :: char) :: nat) < 256"
  by (metis of_char_mod_256 mod_less_divisor zero_less_numeral)

lemma of_char_not_304 [simp]: "(of_char (c :: char) :: nat) \<noteq> 304"
  using of_char_less_256 [of c] by arith

lemma of_char_minus_less: "(of_char (c :: char) :: nat) - 32 < 256"
  using of_char_less_256 [of c] by arith

lemma u_isspace_of_char [simp]: "u_isspace (of_char c) = py_isspace c"
  by (simp add: u_isspace_def py_isspace_def Let_def)

lemma u_isdigit_of_char [simp]: "u_isdigit (of_char c) = py_isdigit c"
  by (simp add: u_isdigit_def py_isdigit_def Let_def)

lemma u_iscased_of_char [simp]: "u_iscased (of_char c) = py_isalpha c"
  by (auto simp: u_iscased_def py_isalpha_def py_isupper_def py_islower_def Let_def)

lemma underscore_of_char: "((of_char c :: nat) = 95) = (c = CHR ''_'')"
proof
  assume "(of_char c :: nat) = 95"
  then have "(of_char c :: nat) = of_char (CHR ''_'')" by simp
  then show "c = CHR ''_''" by (simp only: of_char_eq_iff)
next
  assume "c = CHR ''_''"
  then show "(of_char c :: nat) = 95" by simp
qed

lemma u_isword_of_char [simp]: "u_isword (of_char c) = py_isword c"
  by (simp add: u_isword_def py_isword_def underscore_of_char)

lemma of_char_lower_char: "(of_char (lower_char c) :: nat) = u_fold (of_char c)"
  by (auto simp: lower_char_def u_fold_def py_isupper_def Let_def)

lemma of_char_upper_char:
  "(of_char (upper_char c) :: nat)
     = (if py_islower c then of_char c - 32 else of_char c)"
proof (cases "py_islower c")
  case True
  with of_char_minus_less [of c] show ?thesis by (simp add: upper_char_def)
next
  case False
  then show ?thesis by (simp add: upper_char_def)
qed

lemma u_lower_of_char [simp]: "u_lower (of_char c) = [of_char (lower_char c)]"
  by (auto simp: of_char_lower_char u_lower_def u_fold_def)

lemma u_title_of_char [simp]: "u_title (of_char c) = [of_char (upper_char c)]"
  by (auto simp: of_char_upper_char u_title_def py_islower_def Let_def)

lemma codes_inj [simp]: "(codes a = codes b) = (a = b)"
  unfolding codes_def
  by (rule inj_map_eq_map) (simp add: inj_on_def)

lemma codes_Nil [simp]: "(codes s = []) = (s = [])" "codes [] = []"
  by (simp_all add: codes_def)

lemma codes_Cons [simp]: "codes (c # s) = of_char c # codes s"
  by (simp add: codes_def)

lemma codes_append [simp]: "codes (a @ b) = codes a @ codes b"
  by (simp add: codes_def)

lemma codes_length [simp]: "length (codes s) = length s"
  by (simp add: codes_def)

lemma codes_take [simp]: "take n (codes s) = codes (take n s)"
  by (simp add: codes_def take_map)

lemma codes_drop [simp]: "drop n (codes s) = codes (drop n s)"
  by (simp add: codes_def drop_map)

lemma codes_rev: "rev (codes s) = codes (rev s)"
  by (simp add: codes_def rev_map)

lemma codes_dropWhile_space: "dropWhile u_isspace (codes s) = codes (dropWhile py_isspace s)"
  by (induction s) simp_all

lemma codes_last: "s \<noteq> [] \<Longrightarrow> last (codes s) = of_char (last s)"
  by (simp add: codes_def last_map)

lemma u_strip_codes [simp]: "u_strip (codes s) = codes (strip s)"
  by (simp add: u_strip_def strip_def codes_dropWhile_space codes_rev)

lemma u_str_isdigit_codes [simp]: "u_str_isdigit (codes s) = isdigit s"
  by (simp add: u_str_isdigit_def isdigit_def codes_def list_all_iff)

lemma u_str_lower_codes [simp]: "u_str_lower (codes s) = codes (lower s)"
  by (induction s) (simp_all add: u_str_lower_def lower_def)

lemma u_title_from_codes: "u_title_from prev (codes s) = codes (title_from prev s)"
proof (induction s arbitrary: prev)
  case Nil
  show ?case by simp
next
  case (Cons c s)
  show ?case
  proof (cases "py_isalpha c")
    case True
    then show ?thesis by (simp add: Cons.IH)
  next
    case False
    then have "lower_char c = c" by (rule lower_nonalpha)
    moreover from False have "upper_char c = c"
      by (simp add: upper_char_def py_isalpha_def)
    ultimately show ?thesis using False by (simp add: Cons.IH)
  qed
qed

lemma u_str_title_codes [simp]: "u_str_title (codes s) = codes (title s)"
  by (simp add: u_str_title_def title_def u_title_from_codes)

lemma map_u_fold_codes: "map u_fold (codes s) = codes (lower s)"
  by (induction s) (simp_all add: lower_def of_char_lower_char)

lemma u_lit_eq_codes [simp]: "u_lit_eq icase (codes a) (codes b) = lit_eq icase a b"
  by (simp add: u_lit_eq_def lit_eq_def map_u_fold_codes)

lemma code_state_simps [simp]: "code_state (p, s, g) = (map_option of_char p, codes s)"
  by (simp add: code_state_def)

lemma snd_code_state [simp]: "length (snd (code_state st)) = length (fst (snd st))"
  by (simp add: code_state_def)

lemma sim_star:
  assumes "\<And>st. um (code_state st) = map code_state (m st)"
  shows "u_star_iter n um (code_state st) = map code_state (star_iter n m st)"
proof (induction n arbitrary: st)
  case 0
  show ?case by simp
next
  case (Suc n)
  have "concat (map (\<lambda>st'. if length (snd st') < length (snd (code_state st))
                           then u_star_iter n um st' else []) (map code_state (m st)))
      = map code_state (concat (map (\<lambda>st'. if length (fst (snd st')) < length (fst (snd st))
                           then star_iter n m st' else []) (m st)))"
    by (simp add: map_concat comp_def Suc.IH if_distrib [of "map code_state"] cong: if_cong)
  then show ?case by (simp add: assms)
qed

lemma u_at_boundary_codes [simp]:
  "u_at_boundary (map_option of_char p) (codes s) = at_boundary p s"
  by (cases p; cases s) (simp_all add: u_at_boundary_def at_boundary_def)

lemma sim_matches:
  "u_matches (uregex_of r) icase (code_state st) = map code_state (matches r icase st)"
proof (induction r arbitrary: st)
  case Eps
  show ?case by simp
next
  case (Lit w)
  obtain p s g where st: "st = (p, s, g)" using prod_cases3 by blast
  have "take (length w) (codes s) = codes (take (length w) s)" by simp
  then show ?case
    unfolding st
    by (simp add: last_char_def codes_last del: codes_take)
next
  case (Cls P)
  obtain p s g where st: "st = (p, s, g)" using prod_cases3 by blast
  show ?case
    unfolding st by (cases s) (simp_all add: of_char_less_256)
next
  case (Seq a b)
  show ?case
    by (simp add: Seq.IH map_concat comp_def)
next
  case (Alt a b)
  show ?case by (simp add: Alt.IH)
next
  case (Star a)
  have "u_star_iter (length (snd (code_state st))) (u_matches (uregex_of a) icase) (code_state st)
      = map code_state (star_iter (length (snd (code_state st))) (matches a icase) st)"
    by (rule sim_star) (rule Star.IH)
  then show ?case by simp
next
  case Bol
  obtain p s g where st: "st = (p, s, g)" using prod_cases3 by blast
  show ?case unfolding st by simp
next
  case Eol
  obtain p s g where st: "st = (p, s, g)" using prod_cases3 by blast
  have "(codes s = [10]) = (s = [CHR 0x0A])"
    using codes_inj [of s "[CHR 0x0A]"] by simp
  then show ?case unfolding st by simp
next
  case WordB
  obtain p s g where st: "st = (p, s, g)" using prod_cases3 by blast
  show ?case unfolding st by simp
next
  case (Grp n a)
  obtain p s g where st: "st = (p, s, g)" using prod_cases3 by blast
  show ?case
    unfolding st using Grp.IH [of "(p, s, g)"]
    by (simp add: comp_def case_prod_unfold code_state_def)
qed

lemma sim_match_at:
  "u_match_at (uregex_of r) icase (map_option of_char p) (codes s)
     = map_option code_state (match_at r icase p s)"
  using sim_matches [of r icase "(p, s, [])"]
  by (simp add: u_match_at_def match_at_def split: list.splits)

lemma sim_re_match:
  "(u_re_match (uregex_of r) icase (codes s) \<noteq> None) = (re_match r icase s \<noteq> None)"
  using sim_match_at [of r icase None s]
  by (simp add: u_re_match_def re_match_def)

lemma sim_sub_from:
  "u_sub_from (uregex_of r) icase (codes repl) (map_option of_char p) (codes s)
     = codes (sub_from r icase repl p s)"
proof (induction r icase repl p s rule: sub_from.induct)
  case (1 r icase repl p s)
  show ?case
  proof (cases "match_at r icase p s")
    case None
    then have u: "u_match_at (uregex_of r) icase (map_option of_char p) (codes s) = None"
      by (simp add: sim_match_at)
    show ?thesis
    proof (cases s)
      case Nil
      with None u show ?thesis
        by (subst u_sub_from.simps, subst sub_from.simps) simp
    next
      case (Cons c cs)
      from "1.IH"(1) [OF None Cons] have "u_sub_from (uregex_of r) icase (codes repl)
            (map_option of_char (Some c)) (codes cs) = codes (sub_from r icase repl (Some c) cs)" .
      with None u Cons show ?thesis
        by (subst u_sub_from.simps, subst sub_from.simps) simp
    qed
  next
    case (Some st)
    obtain p' s' g where st: "st = (p', s', g)" using prod_cases3 by blast
    from Some st have u: "u_match_at (uregex_of r) icase (map_option of_char p) (codes s)
        = Some (map_option of_char p', codes s')"
      by (simp add: sim_match_at)
    show ?thesis
    proof (cases "length s' < length s")
      case True
      from "1.IH"(2) [OF Some [unfolded st] refl refl True]
      have "u_sub_from (uregex_of r) icase (codes repl) (map_option of_char p') (codes s')
          = codes (sub_from r icase repl p' s')" .
      with Some st u True show ?thesis
        by (subst u_sub_from.simps, subst sub_from.simps) simp
    next
      case False
      show ?thesis
      proof (cases s)
        case Nil
        with Some st u False show ?thesis
          by (subst u_sub_from.simps, subst sub_from.simps) simp
      next
        case (Cons c cs)
        from "1.IH"(3) [OF Some [unfolded st] refl refl False Cons]
        have "u_sub_from (uregex_of r) icase (codes repl) (map_option of_char (Some c)) (codes cs)
            = codes (sub_from r icase repl (Some c) cs)" .
        with Some st u False Cons show ?thesis
          by (subst u_sub_from.simps, subst sub_from.simps) simp
      qed
    qed
  qed
qed

lemma sim_re_sub:
  "u_re_sub (uregex_of r) icase (codes repl) (codes s) = codes (re_sub r icase repl s)"
  using sim_sub_from [of r icase repl None s]
  by (simp add: u_re_sub_def re_sub_def)

lemma cls_space_eq: "(\<lambda>n. n < 256 \<and> py_isspace (char_of n)) = u_isspace"
proof
  fix n :: nat
  show "(n < 256 \<and> py_isspace (char_of n)) = u_isspace n"
  proof (cases "n < 256")
    case True
    then have "u_isspace (of_char (char_of n)) = u_isspace n" by simp
    with True show ?thesis by (simp del: of_char_of)
  next
    case False
    then show ?thesis by (simp add: u_isspace_def)
  qed
qed

lemma cls_digit_eq: "(\<lambda>n. n < 256 \<and> py_isdigit (char_of n)) = u_isdigit"
proof
  fix n :: nat
  show "(n < 256 \<and> py_isdigit (char_of n)) = u_isdigit n"
  proof (cases "n < 256")
    case True
    then have "u_isdigit (of_char (char_of n)) = u_isdigit n" by simp
    with True show ?thesis by (simp del: of_char_of)
  next
    case False
    then show ?thesis by (simp add: u_isdigit_def)
  qed
qed

lemma u_level_keyword_re_of: "u_level_keyword_re = uregex_of level_keyword_re"
  by (simp add: u_level_keyword_re_def level_keyword_re_def words_def Plus_def UPlus_def
      cls_space_eq cls_digit_eq)

lemma u_grade_re_of: "u_grade_re = uregex_of grade_re"
  by (simp add: u_grade_re_def grade_re_def Plus_def UPlus_def cls_space_eq)

lemma u_normalize_codes: "u_normalize (codes s) = codes (normalize_level_label s)"
proof -
  have a: "\<And>t. (take 5 (codes (lower t)) = codes ''class'') = startswith (lower t) ''class''"
    by (simp add: startswith_def eval_nat_numeral del: codes_Cons)
  show ?thesis
    unfolding u_normalize_def normalize_level_label_def Let_def
      u_level_keyword_re_of u_grade_re_of u_strip_codes sim_re_match sim_re_sub
      u_str_isdigit_codes u_str_title_codes u_str_lower_codes a
    by simp
qed

lemma ascii_strip:
  "\<forall>c \<in> set s. (of_char c :: nat) < 128 \<Longrightarrow> \<forall>c \<in> set (strip s). (of_char c :: nat) < 128"
proof -
  have "set (dropWhile py_isspace (rev (dropWhile py_isspace s))) \<subseteq> set (rev (dropWhile py_isspace s))"
    by (auto dest: set_dropWhileD)
  moreover have "set (dropWhile py_isspace s) \<subseteq> set s"
    by (auto dest: set_dropWhileD)
  ultimately have "set (strip s) \<subseteq> set s"
    unfolding strip_def by auto
  then show "\<forall>c \<in> set s. (of_char c :: nat) < 128
      \<Longrightarrow> \<forall>c \<in> set (strip s). (of_char c :: nat) < 128"
    by blast
qed

lemma ascii_lower_char: "(of_char c :: nat) < 128 \<Longrightarrow> (of_char (lower_char c) :: nat) < 128"
  by (simp add: of_char_lower_char u_fold_def)

lemma ascii_upper_char: "(of_char c :: nat) < 128 \<Longrightarrow> (of_char (upper_char c) :: nat) < 128"
proof -
  assume a: "(of_char c :: nat) < 128"
  then have "(of_char c :: nat) - 32 < 128" by arith
  with a show ?thesis by (simp add: of_char_upper_char)
qed

lemma ascii_title_from:
  "\<forall>c \<in> set s. (of_char c :: nat) < 128
   \<Longrightarrow> \<forall>c \<in> set (title_from p s). (of_char c :: nat) < 128"
  by (induction s arbitrary: p) (simp_all add: ascii_lower_char ascii_upper_char)

lemma ascii_sub_grade:
  "\<forall>c \<in> set s. (of_char c :: nat) < 128
   \<Longrightarrow> \<forall>c \<in> set (sub_grade b s). (of_char c :: nat) < 128"
proof (induction b s rule: sub_grade.induct)
  case (1 b s)
  show ?case
  proof (cases "\<not> b \<and> grade_here s")
    case True
    have "set (dropWhile py_isspace (drop 5 s)) \<subseteq> set s"
      using set_dropWhileD set_drop_subset by fastforce
    with "1.prems" have "\<forall>c \<in> set (dropWhile py_isspace (drop 5 s)). (of_char c :: nat) < 128"
      by blast
    from "1.IH"(1) [OF True this]
    have "\<forall>c \<in> set (sub_grade False (dropWhile py_isspace (drop 5 s))). (of_char c :: nat) < 128" .
    moreover have "\<forall>c \<in> set ''Class ''. (of_char c :: nat) < 128" by simp
    ultimately show ?thesis
      using True by (subst sub_grade.simps) auto
  next
    case False
    show ?thesis
    proof (cases s)
      case Nil
      with False show ?thesis by (subst sub_grade.simps) auto
    next
      case (Cons c cs)
      with "1.prems" have "\<forall>c \<in> set cs. (of_char c :: nat) < 128" by simp
      from "1.IH"(2) [OF False Cons this]
      have "\<forall>x \<in> set (sub_grade (py_isword c) cs). (of_char x :: nat) < 128" .
      with False Cons "1.prems" show ?thesis by (subst sub_grade.simps) auto
    qed
  qed
qed

lemma ascii_normalize:
  assumes "\<forall>c \<in> set s. (of_char c :: nat) < 128"
  shows "\<forall>c \<in> set (normalize_level_label s). (of_char c :: nat) < 128"
proof -
  note st = ascii_strip [OF assms]
  from st have "\<forall>c \<in> set (title (strip s)). (of_char c :: nat) < 128"
    unfolding title_def by (rule ascii_title_from)
  moreover from ascii_sub_grade [OF st]
  have "\<forall>c \<in> set (title (sub_grade False (strip s))). (of_char c :: nat) < 128"
    unfolding title_def by (rule ascii_title_from)
  ultimately show ?thesis
    using assms st by (simp add: nll_unfold)
qed

lemma codes_char_of:
  "list_all (\<lambda>n. n < 128) label \<Longrightarrow> codes (map char_of label) = label"
  by (induction label) (simp_all add: codes_def)

lemma ascii_tabulated:
  "\<forall>c \<in> set s. (of_char c :: nat) < 128 \<Longrightarrow> list_all tabulated (codes s)"
  by (simp add: list_all_iff codes_def tabulated_def)

text \<open>
  Claim C8. \<open>normalize_level_label\<close> is idempotent on ASCII text: for every text of
  code points below 128 the normalized label is an ASCII text, and normalizing it gives
  the same label again.
\<close>

theorem normalize_level_label_idempotent_on_ascii:
  assumes "list_all (\<lambda>n. n < 128) label"
  shows "\<exists>t. normalize_level_label_u label = Some t \<and> normalize_level_label_u t = Some t
           \<and> list_all (\<lambda>n. n < 128) t"
proof -
  let ?s = "map char_of label :: string"
  from assms have label: "label = codes ?s" by (simp add: codes_char_of)
  from assms have a: "\<forall>c \<in> set ?s. (of_char c :: nat) < 128"
    by (auto simp: list_all_iff)
  let ?t = "codes (normalize_level_label ?s)"
  note b = ascii_normalize [OF a]
  from a have "normalize_level_label_u (codes ?s) = Some ?t"
    by (simp add: normalize_level_label_u_def ascii_tabulated u_normalize_codes)
  with label have 1: "normalize_level_label_u label = Some ?t" by simp
  from b have 2: "normalize_level_label_u ?t = Some ?t"
    by (simp add: normalize_level_label_u_def ascii_tabulated u_normalize_codes
        normalize_chars_idempotent)
  from b have 3: "list_all (\<lambda>n. n < 128) ?t"
    by (simp add: list_all_iff codes_def)
  from 1 2 3 show ?thesis by blast
qed

theorem normalize_level_label_idempotent_on_ascii_witness:
  "normalize_level_label_u (codes ''  grade   8 '') = Some (codes ''Class 8'')
   \<and> normalize_level_label_u (codes ''Class 8'') = Some (codes ''Class 8'')"
proof -
  have a: "list_all (\<lambda>n. n < 128) (codes ''  grade   8 '')" by code_simp
  have b: "normalize_level_label_u (codes ''  grade   8 '') = Some (codes ''Class 8'')"
    by code_simp
  from normalize_level_label_idempotent_on_ascii [OF a] b
  have "normalize_level_label_u (codes ''Class 8'') = Some (codes ''Class 8'')"
    by auto
  with b show ?thesis by (rule conjI)
qed

text \<open>
  Beyond ASCII the second call can change the label. The lower case of U+0130 is the
  letter i followed by the mark U+0307, which has no case. In "a", U+0130, "x" the first
  call of \<open>str.title\<close> puts the x behind a cased letter, in lower case; in the result
  the x stands behind the mark, and the second call puts it in title case.
\<close>

theorem normalize_level_label_twice_beyond_ascii:
  "normalize_level_label_u [0x61, 0x130, 0x78] = Some [0x41, 0x69, 0x307, 0x78]
   \<and> normalize_level_label_u [0x41, 0x69, 0x307, 0x78] = Some [0x41, 0x69, 0x307, 0x58]"
  by code_simp

section \<open>Fragment extractor: the streams of an utterance\<close>

lemma remdups_snoc: "remdups (zs @ [a]) = remdups (filter (\<lambda>z. z \<noteq> a) zs) @ [a]"
  by (induction zs) auto

lemma unique_streams_lower:
  "map lower (unique_streams seen xs)
     = rev (remdups (rev (filter (\<lambda>l. l \<notin> seen) (map lower xs))))"
proof (induction xs arbitrary: seen)
  case Nil
  then show ?case by simp
next
  case (Cons x xs)
  have eq: "filter (\<lambda>z. z \<noteq> lower x) (rev (filter (\<lambda>l. l \<notin> seen) (map lower xs)))
            = rev (filter (\<lambda>l. l \<notin> insert (lower x) seen) (map lower xs))"
    by (simp add: rev_filter [symmetric] conj_commute)
  show ?case
    by (simp add: Cons.IH remdups_snoc eq)
qed

lemma unique_streams_subset: "set (unique_streams seen xs) \<subseteq> set xs"
  by (induction xs arbitrary: seen) auto

lemma unique_streams_length: "length (unique_streams seen xs) \<le> length xs"
  by (induction xs arbitrary: seen) (auto intro: le_SucI)

lemma found_streams_length: "length (found_streams parts) \<le> length parts"
  by (simp add: found_streams_def List.map_filter_def)

lemma found_streams_keyword:
  assumes "s \<in> set (found_streams parts)"
  shows "\<exists>part \<in> set parts. \<exists>word \<in> set stream_keywords.
           find (\<lambda>word. word \<in> set stream_keywords) (split (lower (strip part))) = Some word
           \<and> s = stream_label word"
proof -
  from assms obtain part where p: "part \<in> set parts" and ps: "part_stream part = Some s"
    by (auto simp: found_streams_def List.map_filter_def)
  from ps obtain word where
    f: "find (\<lambda>word. word \<in> set stream_keywords) (split (lower (strip part))) = Some word"
    and s: "s = stream_label word"
    by (auto simp: part_stream_def Let_def split: if_splits)
  from f have "word \<in> set stream_keywords"
    by (auto simp: find_Some_iff)
  with p f s show ?thesis by blast
qed

lemma streams_blue_and_red:
  "extract_all_streams ''create grade 7 with streams blue and red'' ''7'' = [''Blue'', ''Red'']"
  by code_simp

lemma streams_blue_twice:
  "extract_all_streams ''create grade 7 with streams blue and red and blue'' ''7''
     = [''Blue'', ''Red'']"
  by code_simp

text \<open>
  Claim C7, as the code has it. \<open>extract_all_streams\<close> removes "with streams", the level
  reference and the action keywords (\<open>clean_text\<close>) and splits the rest on commas and the
  word "and" (\<open>stream_parts\<close>). Of every part it takes one word at most, the first one
  that is in the stream vocabulary, in upper case if it is a single letter and in title
  case otherwise. The result lists these names without case-insensitive duplicates, in
  the order of their first occurrence. For "create grade 7 with streams blue and red" and
  level "7" the result is Blue, Red, also when "blue" is named twice.
\<close>

theorem extract_all_streams_first_keyword_of_each_part:
  "length (extract_all_streams text level_str) \<le> length (stream_parts text level_str)
   \<and> (\<forall>s \<in> set (extract_all_streams text level_str).
        \<exists>part \<in> set (stream_parts text level_str). \<exists>word \<in> set stream_keywords.
          find (\<lambda>word. word \<in> set stream_keywords) (split (lower (strip part))) = Some word
          \<and> s = stream_label word)
   \<and> map lower (extract_all_streams text level_str)
       = rev (remdups (rev (map lower (found_streams (stream_parts text level_str)))))
   \<and> extract_all_streams ''create grade 7 with streams blue and red'' ''7''
       = [''Blue'', ''Red'']
   \<and> extract_all_streams ''create grade 7 with streams blue and red and blue'' ''7''
       = [''Blue'', ''Red'']"
proof -
  have len: "length (extract_all_streams text level_str) \<le> length (stream_parts text level_str)"
    unfolding extract_all_streams_def
    using unique_streams_length found_streams_length le_trans by blast
  have voc: "\<forall>s \<in> set (extract_all_streams text level_str).
        \<exists>part \<in> set (stream_parts text level_str). \<exists>word \<in> set stream_keywords.
          find (\<lambda>word. word \<in> set stream_keywords) (split (lower (strip part))) = Some word
          \<and> s = stream_label word"
  proof
    fix s assume "s \<in> set (extract_all_streams text level_str)"
    then have "s \<in> set (found_streams (stream_parts text level_str))"
      unfolding extract_all_streams_def using unique_streams_subset by blast
    then show "\<exists>part \<in> set (stream_parts text level_str). \<exists>word \<in> set stream_keywords.
          find (\<lambda>word. word \<in> set stream_keywords) (split (lower (strip part))) = Some word
          \<and> s = stream_label word"
      by (rule found_streams_keyword)
  qed
  have ord: "map lower (extract_all_streams text level_str)
       = rev (remdups (rev (map lower (found_streams (stream_parts text level_str)))))"
    unfolding extract_all_streams_def by (simp add: unique_streams_lower)
  from len voc ord streams_blue_and_red streams_blue_twice show ?thesis by blast
qed

theorem extract_all_streams_first_keyword_witness:
  "''Blue'' \<in> set (extract_all_streams ''create grade 7 with streams blue and red'' ''7'')
   \<and> (\<exists>part \<in> set (stream_parts ''create grade 7 with streams blue and red'' ''7'').
        \<exists>word \<in> set stream_keywords.
          find (\<lambda>word. word \<in> set stream_keywords) (split (lower (strip part))) = Some word
          \<and> ''Blue'' = stream_label word)"
proof -
  have m: "''Blue'' \<in> set (extract_all_streams ''create grade 7 with streams blue and red'' ''7'')"
    by (simp add: streams_blue_and_red)
  from m extract_all_streams_first_keyword_of_each_part
         [of "''create grade 7 with streams blue and red''" "''7''"]
  show ?thesis by blast
qed

text \<open>
  The claim as it was stated says that every vocabulary word of every part is collected.
  In "create grade 7 with streams blue red" the words blue and red are in one part, both
  are in the vocabulary, and only Blue is returned.
\<close>

theorem extract_all_streams_skips_second_keyword:
  "''red'' \<in> set stream_keywords
   \<and> stream_parts ''create grade 7 with streams blue red'' ''7'' = [''   blue red'']
   \<and> extract_all_streams ''create grade 7 with streams blue red'' ''7'' = [''Blue'']"
  by code_simp

section \<open>Resource resolver: the base class\<close>

lemma level_stream_always_creates:
  assumes "length level \<le> 64"
  shows "\<exists>d1 logs. create_or_add_stream school d (base_class_payload level year)
           = (Response 201 (ClassBody \<lparr>co_id = db_counter d, co_name = level, co_level = level,
                 co_academic_year = year, co_stream = None, co_created = db_counter d,
                 co_streams = []\<rparr>), d1, logs)
         \<and> length (db_classes d1) = Suc (length (db_classes d))"
  using assms
  by (simp add: create_or_add_stream_def base_class_payload_def insert_class_def Let_def
        class_out_of_def split: list.splits option.splits)

text \<open>
  Claim C1 on the code. The resolver of \<open>ActionCreateClass.run\<close> posts the base class to
  \<open>/classes/level-stream\<close> and expects status 409 for a class that exists. The endpoint
  looks the level up, but where no stream is given it goes on to create the class
  whether or not it found one. Two resolutions of Class 8 in 2025, one right after the
  other on tables that were empty, create two rows and return two identifiers.
\<close>

theorem resolving_twice_creates_two_classes:
  "(case ensure_base_class school_api user_headers ''Class 8'' 2025 (empty_db, []) of
      (r1, d1, t1) \<Rightarrow>
        (case ensure_base_class school_api user_headers ''Class 8'' 2025 (d1, []) of
           (r2, d2, t2) \<Rightarrow>
             r1 = Inr (Some 0) \<and> r2 = Inr (Some 1)
             \<and> map row_id (db_classes d2) = [0, 1]
             \<and> map row_level (db_classes d2) = [''Class 8'', ''Class 8'']
             \<and> map (snd \<circ> snd) (t1 @ t2) = [Some 201, Some 201]))"
  by code_simp

section \<open>Slot-filling state machine: the name validator\<close>

lemma split_from_nonempty: "split_from w s \<noteq> [] \<Longrightarrow> w \<noteq> [] \<or> s \<noteq> []"
  by (cases s) (auto split: if_splits)

lemma split_from_two: "2 \<le> length (split_from w s) \<Longrightarrow> 3 \<le> length w + length s"
proof (induction s arbitrary: w)
  case Nil
  then show ?case by (simp split: if_splits)
next
  case (Cons c cs)
  show ?case
  proof (cases "py_isspace c")
    case True
    show ?thesis
    proof (cases "w = []")
      case True
      with \<open>py_isspace c\<close> Cons.prems have "2 \<le> length (split_from [] cs)" by simp
      from Cons.IH [OF this] show ?thesis by simp
    next
      case False
      with \<open>py_isspace c\<close> Cons.prems have "split_from [] cs \<noteq> []" by auto
      from split_from_nonempty [OF this] have "cs \<noteq> []" by simp
      then have "1 \<le> length cs" by (cases cs) auto
      moreover from False have "1 \<le> length w" by (cases w) auto
      ultimately show ?thesis by simp
    qed
  next
    case False
    with Cons.prems have "2 \<le> length (split_from (w @ [c]) cs)" by simp
    from Cons.IH [OF this] show ?thesis by simp
  qed
qed

lemma two_tokens_three_chars: "2 \<le> length (split cand) \<Longrightarrow> 3 \<le> length cand"
  using split_from_two [of "[]" cand] by (simp add: split_def)

lemma split_name_hd_tl:
  "2 \<le> length name_parts \<Longrightarrow> split_name name_parts = (hd name_parts, join '' '' (tl name_parts))"
proof -
  assume "2 \<le> length name_parts"
  then obtain a b r where n: "name_parts = a # b # r"
    by (cases name_parts; cases "tl name_parts") auto
  show ?thesis by (cases r) (simp_all add: n split_name_def)
qed

text \<open>
  What the validator of the student name does. It takes a candidate, the raw text without
  a known prefix or else the slot value (\<open>candidate_name\<close>). When the intent of the turn
  is one of the interruption intents it rejects without a message. Otherwise it rejects,
  with a re-prompt, where there is no candidate and where the candidate has fewer than two
  tokens separated by white space, and it accepts every candidate of two or more tokens as
  it is. \<open>ActionCreateStudent.run\<close> takes the first token as the first name and the
  other tokens, joined by single spaces, as the last name.
\<close>

lemma validate_student_name_two_tokens:
  "(tr_intent tr \<in> set clear_interruptions
      \<longrightarrow> validate_student_name v tr = ([(''student_name'', None)], []))
   \<and> (tr_intent tr \<notin> set clear_interruptions \<and> candidate_name (tr_text tr) v = None
      \<longrightarrow> validate_student_name v tr = ([(''student_name'', None)], [FullNamePlease]))
   \<and> (tr_intent tr \<notin> set clear_interruptions \<and> candidate_name (tr_text tr) v = Some cand
       \<and> length (split cand) < 2
      \<longrightarrow> fst (validate_student_name v tr) = [(''student_name'', None)]
          \<and> snd (validate_student_name v tr) \<noteq> [])
   \<and> (tr_intent tr \<notin> set clear_interruptions \<and> candidate_name (tr_text tr) v = Some cand
       \<and> 2 \<le> length (split cand)
      \<longrightarrow> validate_student_name v tr = ([(''student_name'', Some cand)], []))
   \<and> (2 \<le> length name_parts
      \<longrightarrow> split_name name_parts = (hd name_parts, join '' '' (tl name_parts)))"
proof -
  have a: "2 \<le> length (split cand) \<Longrightarrow> cand \<noteq> [] \<and> \<not> length cand < 3"
    using two_tokens_three_chars [of cand] by auto
  show ?thesis
    using a by (auto simp: validate_student_name_def split_name_hd_tl)
qed

lemma candidate_joshua_mwangi:
  "tr_intent (message ''Joshua Mwangi'' ''inform'' (Some ''token'') (Some ''school-1'') no_slots)
     \<notin> set clear_interruptions
   \<and> candidate_name (tr_text (message ''Joshua Mwangi'' ''inform'' (Some ''token'')
        (Some ''school-1'') no_slots)) None = Some ''Joshua Mwangi''
   \<and> 2 \<le> length (split ''Joshua Mwangi'')
   \<and> hd (split ''Joshua Mwangi'') = ''Joshua''
   \<and> join '' '' (tl (split ''Joshua Mwangi'')) = ''Mwangi''"
  by code_simp

lemma candidate_joshua:
  "tr_intent (message ''Joshua'' ''inform'' (Some ''token'') (Some ''school-1'') no_slots)
     \<notin> set clear_interruptions
   \<and> candidate_name (tr_text (message ''Joshua'' ''inform'' (Some ''token'')
        (Some ''school-1'') no_slots)) None = Some ''Joshua''
   \<and> length (split ''Joshua'') < 2"
  by code_simp

lemma validate_student_name_joshua:
  "validate_student_name None
     (message ''Joshua Mwangi'' ''inform'' (Some ''token'') (Some ''school-1'') no_slots)
     = ([(''student_name'', Some ''Joshua Mwangi'')], [])
   \<and> split_name (split ''Joshua Mwangi'') = (''Joshua'', ''Mwangi'')
   \<and> fst (validate_student_name None
        (message ''Joshua'' ''inform'' (Some ''token'') (Some ''school-1'') no_slots))
       = [(''student_name'', None)]
   \<and> snd (validate_student_name None
        (message ''Joshua'' ''inform'' (Some ''token'') (Some ''school-1'') no_slots)) \<noteq> []"
proof -
  note jm = validate_student_name_two_tokens
    [of "message ''Joshua Mwangi'' ''inform'' (Some ''token'') (Some ''school-1'') no_slots"
        None "''Joshua Mwangi''" "split ''Joshua Mwangi''"]
  note j = validate_student_name_two_tokens
    [of "message ''Joshua'' ''inform'' (Some ''token'') (Some ''school-1'') no_slots"
        None "''Joshua''" "[]"]
  from jm candidate_joshua_mwangi have
    1: "validate_student_name None
          (message ''Joshua Mwangi'' ''inform'' (Some ''token'') (Some ''school-1'') no_slots)
        = ([(''student_name'', Some ''Joshua Mwangi'')], [])"
    by blast
  from jm candidate_joshua_mwangi have
    2: "split_name (split ''Joshua Mwangi'') = (''Joshua'', ''Mwangi'')"
    by simp
  from j candidate_joshua have
    3: "fst (validate_student_name None
          (message ''Joshua'' ''inform'' (Some ''token'') (Some ''school-1'') no_slots))
        = [(''student_name'', None)]
      \<and> snd (validate_student_name None
          (message ''Joshua'' ''inform'' (Some ''token'') (Some ''school-1'') no_slots)) \<noteq> []"
    by blast
  from 1 2 3 show ?thesis by blast
qed

text \<open>
  Claim C9. A student name needs at least two tokens, and a token that looks like a
  telephone number or contains the character @ is no name. The validator of the student
  creation form counts the tokens and looks at nothing else: it stores "0712 345678" and
  "joe@example.com Doe" as student names, without a message. The validator of the same
  slot in the guardian creation form (\<open>rasa/actions/guardian_actions.py\<close>, lines 713 to
  720) rejects a text of digits, spaces and punctuation of telephone numbers and a text
  with @.
\<close>

theorem validate_student_name_accepts_phone_and_email:
  "validate_student_name None
     (message ''0712 345678'' ''inform'' (Some ''token'') (Some ''school-1'') no_slots)
     = ([(''student_name'', Some ''0712 345678'')], [])
   \<and> validate_student_name None
       (message ''joe@example.com Doe'' ''inform'' (Some ''token'') (Some ''school-1'') no_slots)
     = ([(''student_name'', Some ''joe@example.com Doe'')], [])"
  by code_simp

section \<open>Slot-filling state machine: a rejection keeps the other slots\<close>

lemma validate_student_name_key:
  "\<exists>v. fst (validate_student_name sv tr) = [(''student_name'', v)]"
  by (auto simp: validate_student_name_def split: option.splits)

lemma validate_admission_no_key:
  "\<exists>v. fst (validate_admission_no sv tr) = [(''admission_no'', v)]"
  by (auto simp: validate_admission_no_def Let_def split: option.splits)

lemma validate_class_name_key:
  "\<exists>v. fst (fst (validate_class_name be sv tr st)) = [(''class_name'', v)]"
  by (auto simp: validate_class_name_def Let_def split: option.splits prod.splits response.splits)

lemma one_entry_events:
  "d = [(name, v)] \<Longrightarrow> apply_events (validation_events d) sl = sl(name := v)"
  by (simp add: apply_events_def validation_events_def)

text \<open>
  Claim C2. Each of the three validators of the student creation form returns a
  dictionary with one entry, the entry of its own slot. So whatever a validator decides,
  and in particular when it rejects the value and sets its slot to empty, every other
  slot of the conversation keeps its value.
\<close>

theorem validator_changes_only_its_slot:
  "(\<exists>v. fst (validate_student_name sv tr) = [(''student_name'', v)]
        \<and> apply_events (validation_events (fst (validate_student_name sv tr))) sl
            = sl(''student_name'' := v))
   \<and> (\<exists>v. fst (validate_admission_no sv tr) = [(''admission_no'', v)]
        \<and> apply_events (validation_events (fst (validate_admission_no sv tr))) sl
            = sl(''admission_no'' := v))
   \<and> (\<exists>v. fst (fst (validate_class_name be sv tr st)) = [(''class_name'', v)]
        \<and> apply_events (validation_events (fst (fst (validate_class_name be sv tr st)))) sl
            = sl(''class_name'' := v))"
  using validate_student_name_key [of sv tr] validate_admission_no_key [of sv tr]
    validate_class_name_key [of be sv tr st]
  by (auto simp: one_entry_events)

lemma joshua_rejected:
  "fst (validate_student_name None
     (message ''Joshua'' ''inform'' (Some ''token'') (Some ''school-1'') no_slots))
   = [(''student_name'', None)]"
  by code_simp


theorem validator_changes_only_its_slot_witness:
  "fst (validate_student_name None
      (message ''Joshua'' ''inform'' (Some ''token'') (Some ''school-1'') no_slots))
     = [(''student_name'', None)]
   \<and> apply_events (validation_events (fst (validate_student_name None
         (message ''Joshua'' ''inform'' (Some ''token'') (Some ''school-1'') no_slots))))
       (no_slots(''admission_no'' := Some ''A12'', ''student_name'' := Some ''Joe''))
       ''admission_no'' = Some ''A12''
   \<and> apply_events (validation_events (fst (validate_student_name None
         (message ''Joshua'' ''inform'' (Some ''token'') (Some ''school-1'') no_slots))))
       (no_slots(''admission_no'' := Some ''A12'', ''student_name'' := Some ''Joe''))
       ''student_name'' = None"
proof -
  let ?tr = "message ''Joshua'' ''inform'' (Some ''token'') (Some ''school-1'') no_slots"
  let ?sl = "no_slots(''admission_no'' := Some ''A12'', ''student_name'' := Some ''Joe'')"
  from validator_changes_only_its_slot [of None ?tr ?sl, THEN conjunct1] obtain v where
    a: "fst (validate_student_name None ?tr) = [(''student_name'', v)]" and
    b: "apply_events (validation_events (fst (validate_student_name None ?tr))) ?sl
          = ?sl(''student_name'' := v)"
    by blast
  from a joshua_rejected have v: "v = None" by simp
  from b have "apply_events (validation_events (fst (validate_student_name None ?tr))) ?sl
      ''admission_no'' = (?sl(''student_name'' := v)) ''admission_no''"
    by simp
  then have c: "apply_events (validation_events (fst (validate_student_name None ?tr))) ?sl
      ''admission_no'' = Some ''A12''"
    by simp
  from b have "apply_events (validation_events (fst (validate_student_name None ?tr))) ?sl
      ''student_name'' = (?sl(''student_name'' := v)) ''student_name''"
    by simp
  with v have d: "apply_events (validation_events (fst (validate_student_name None ?tr))) ?sl
      ''student_name'' = None"
    by simp
  from joshua_rejected c d show ?thesis by blast
qed

section \<open>Action dispatcher: the authentication guard\<close>

text \<open>
  Claim C4. The guard at the head of the actions reads the authentication token of the
  turn and nothing else. Without a token (absent or empty) the action that creates a
  student, the action that creates a class and the action that lists the classes each
  answer with the message that authentication is required, return no event, leave the API
  untouched and issue no request. The school identifier is not part of the guard.
\<close>

theorem auth_guard_checks_the_token_only:
  "\<not> truthy (tr_auth_token tr) \<Longrightarrow>
   ActionCreateStudent_run be tr st
     = (([Say ''Authentication required. Please log in first.''], []), st, [])
   \<and> ActionCreateClass_run be tr st
     = (([Say ''Authentication required. Please log in first.''], [], []), st, [])
   \<and> ActionListClasses_run be tr st
     = (([Say ''Authentication required. Please log in first.''], []), st, [])"
  by (simp add: ActionCreateStudent_run_def ActionCreateClass_run_def ActionListClasses_run_def)

theorem auth_guard_checks_the_token_only_witness:
  "ActionCreateStudent_run school_api
       (message ''yes'' ''affirm'' None (Some ''school-1'') student_slots) empty_db
     = (([Say ''Authentication required. Please log in first.''], []), empty_db, [])
   \<and> ActionCreateClass_run school_api
       (message ''yes'' ''affirm'' None (Some ''school-1'') student_slots) empty_db
     = (([Say ''Authentication required. Please log in first.''], [], []), empty_db, [])"
  using auth_guard_checks_the_token_only
          [of "message ''yes'' ''affirm'' None (Some ''school-1'') student_slots"
              school_api empty_db]
  by (simp add: message_def truthy_def)

text \<open>
  With a token and without a school identifier the guard lets the turn pass: the request
  for the academic setup is sent with no school identifier in its headers, and the message
  is the one for the answer of the API (here status 403), not the one of the guard.
\<close>

theorem missing_school_id_reaches_the_api:
  "tr_school_id (message ''create class 8'' ''create_class'' (Some ''token'') None no_slots) = None
   \<and> ActionCreateClass_run forbidden_api
        (message ''create class 8'' ''create_class'' (Some ''token'') None no_slots) ()
      = (([AcademicSetupRequired], [], []), (),
         [(\<lparr>h_authorization = ''Bearer token'', h_school_id = None\<rparr>, GetCurrentSetup, Some 403)])
   \<and> ActionCreateStudent_run forbidden_api
        (message ''yes'' ''affirm'' (Some ''token'') None student_slots) ()
      = (([StudentSetupRequired], clear_student_slots), (),
         [(\<lparr>h_authorization = ''Bearer token'', h_school_id = None\<rparr>, GetCurrentSetup, Some 403)])"
  by code_simp

section \<open>Action dispatcher: the answer to the request that creates the student\<close>

lemma create_student_try_result:
  assumes "create_student_try be h a f l c (st, []) = (r, st', trace)"
  shows "(\<forall>x. r = Inr x \<longrightarrow> snd x = clear_student_slots)
       \<and> trace \<noteq> []
       \<and> (\<forall>h' p. (h', PostStudents p, Some 409) \<in> set trace
             \<longrightarrow> sc_admission_no p = a \<and> r = Inr ([DuplicateAdmission a], clear_student_slots))"
  using assms
  by (auto simp: create_student_try_def get_current_setup_def get_classes_call_def
        post_classes_def post_students_def student_result_def status_def Let_def
      split: prod.splits response.splits if_splits option.splits sum.splits body.splits)

text \<open>
  Claim C5. Once the action that creates a student has sent a request, it returns the
  events that clear the admission number, the student name and the class name, whatever
  the answer. On status 409 for the request that creates the student the message is the
  one about the duplicate admission number of the form, and the three slots are cleared.
  The action returns either no event or events for all three slots, never an event for
  the admission number alone.
\<close>

theorem create_student_clears_every_slot:
  assumes "ActionCreateStudent_run be tr st = ((msgs, evs), st', trace)"
  shows "(trace \<noteq> [] \<longrightarrow> evs = clear_student_slots)
       \<and> (\<forall>h p. (h, PostStudents p, Some 409) \<in> set trace
             \<longrightarrow> tr_slots tr ''admission_no'' = Some (sc_admission_no p)
               \<and> msgs = [DuplicateAdmission (sc_admission_no p)]
               \<and> evs = clear_student_slots)
       \<and> (evs = [] \<or> set evs = set clear_student_slots)"
proof (cases "ActionCreateStudent_run be tr st
    = (case create_student_try be (request_headers tr) (the (tr_slots tr ''admission_no''))
             (fst (split_name (split (strip (the (tr_slots tr ''student_name''))))))
             (snd (split_name (split (strip (the (tr_slots tr ''student_name''))))))
             (normalize_class_name (the (tr_slots tr ''class_name''))) (st, []) of
         (Inr r, w) \<Rightarrow> (r, w)
       | (Inl RequestException, w) \<Rightarrow> (([ConnectionError], clear_student_slots), w)
       | (Inl OtherException, w) \<Rightarrow> (([UnexpectedError], clear_student_slots), w))
      \<and> tr_slots tr ''admission_no'' \<noteq> None")
  case True
  obtain r st1 trace1 where t: "create_student_try be (request_headers tr) (the (tr_slots tr ''admission_no''))
             (fst (split_name (split (strip (the (tr_slots tr ''student_name''))))))
             (snd (split_name (split (strip (the (tr_slots tr ''student_name''))))))
             (normalize_class_name (the (tr_slots tr ''class_name''))) (st, []) = (r, st1, trace1)"
    using prod_cases3 by blast
  note res = create_student_try_result [OF t]
  from True assms t have run: "((msgs, evs), st', trace)
      = (case (r, st1, trace1) of
         (Inr r, w) \<Rightarrow> (r, w)
       | (Inl RequestException, w) \<Rightarrow> (([ConnectionError], clear_student_slots), w)
       | (Inl OtherException, w) \<Rightarrow> (([UnexpectedError], clear_student_slots), w))"
    by simp
  from True have a: "tr_slots tr ''admission_no'' = Some (the (tr_slots tr ''admission_no''))"
    by simp
  from res have tne: "trace1 \<noteq> []" by simp
  show ?thesis
  proof (cases r)
    case (Inl e)
    with run have "evs = clear_student_slots" "trace = trace1"
      by (cases e; simp)+
    with res Inl show ?thesis by auto
  next
    case (Inr x)
    with run have x: "x = (msgs, evs)" "trace = trace1" by simp_all
    with res Inr have "evs = clear_student_slots" by auto
    with res Inr x a show ?thesis by auto
  qed
next
  case False
  with assms have "trace = [] \<and> (evs = [] \<or> set evs = set clear_student_slots)"
    by (auto simp: ActionCreateStudent_run_def Let_def clear_student_slots_def
        split: if_splits option.splits prod.splits)
  then show ?thesis by simp
qed

theorem create_student_clears_every_slot_witness:
  "(\<lparr>h_authorization = ''Bearer token'', h_school_id = Some ''school-1''\<rparr>,
      PostStudents \<lparr>sc_admission_no = ''A12'', sc_first_name = ''Joshua'',
                     sc_last_name = ''Mwangi'', sc_class_id = 0\<rparr>, Some 409)
     \<in> set (snd (snd (ActionCreateStudent_run duplicate_api
          (message ''yes'' ''affirm'' (Some ''token'') (Some ''school-1'') student_slots) empty_db)))
   \<and> fst (ActionCreateStudent_run duplicate_api
          (message ''yes'' ''affirm'' (Some ''token'') (Some ''school-1'') student_slots) empty_db)
     = ([DuplicateAdmission ''A12''], clear_student_slots)"
proof -
  let ?run = "ActionCreateStudent_run duplicate_api
          (message ''yes'' ''affirm'' (Some ''token'') (Some ''school-1'') student_slots) empty_db"
  let ?p = "\<lparr>sc_admission_no = ''A12'', sc_first_name = ''Joshua'',
                     sc_last_name = ''Mwangi'', sc_class_id = 0\<rparr>"
  have call: "(\<lparr>h_authorization = ''Bearer token'', h_school_id = Some ''school-1''\<rparr>,
      PostStudents ?p, Some 409) \<in> set (snd (snd ?run))"
    by code_simp
  have "?run = ((fst (fst ?run), snd (fst ?run)), fst (snd ?run), snd (snd ?run))"
    by simp
  from create_student_clears_every_slot [OF this] call
  have "fst (fst ?run) = [DuplicateAdmission (sc_admission_no ?p)]
      \<and> snd (fst ?run) = clear_student_slots"
    by blast
  then have "fst ?run = ([DuplicateAdmission ''A12''], clear_student_slots)"
    by (simp add: prod_eq_iff)
  with call show ?thesis by simp
qed

text \<open>
  On a duplicate admission number the student name and the class name, which the form
  had collected, are cleared together with the admission number.
\<close>

theorem duplicate_admission_clears_the_name_and_the_class:
  "fst (ActionCreateStudent_run duplicate_api
          (message ''yes'' ''affirm'' (Some ''token'') (Some ''school-1'') student_slots) empty_db)
     = ([DuplicateAdmission ''A12''],
        [SlotSet ''admission_no'' None, SlotSet ''student_name'' None, SlotSet ''class_name'' None])
   \<and> student_slots ''student_name'' = Some ''Joshua Mwangi''
   \<and> student_slots ''class_name'' = Some ''Grade 4''
   \<and> apply_events (snd (fst (ActionCreateStudent_run duplicate_api
          (message ''yes'' ''affirm'' (Some ''token'') (Some ''school-1'') student_slots) empty_db)))
        student_slots ''student_name'' = None
   \<and> apply_events (snd (fst (ActionCreateStudent_run duplicate_api
          (message ''yes'' ''affirm'' (Some ''token'') (Some ''school-1'') student_slots) empty_db)))
        student_slots ''class_name'' = None"
  by code_simp

section \<open>Action dispatcher: the streams of a class\<close>

lemma post_class_stream_trace:
  "post_class_stream be h cid s (st, tr) = (r, st1, tr1)
   \<Longrightarrow> tr1 = tr @ [(h, PostClassStream cid s, status r)]"
  by (auto simp: post_class_stream_def split: prod.splits)

lemma add_streams_buckets:
  "add_streams be h cid ss (a, f, k) (st, tr) = (Inr (a', f', k'), st', tr')
   \<Longrightarrow> \<exists>codes. length codes = length ss
         \<and> tr' = tr @ map (\<lambda>(s, c). (h, PostClassStream cid s, Some c)) (zip ss codes)
         \<and> a' = a @ map fst (filter (\<lambda>(s, c). c = 201) (zip ss codes))
         \<and> k' = k @ map fst (filter (\<lambda>(s, c). c = 409) (zip ss codes))
         \<and> f' = f @ map fst (filter (\<lambda>(s, c). c \<noteq> 201 \<and> c \<noteq> 409) (zip ss codes))"
proof (induction ss arbitrary: a f k st tr)
  case Nil
  then show ?case by simp
next
  case (Cons s ss)
  obtain r st1 tr1 where p: "post_class_stream be h cid s (st, tr) = (r, st1, tr1)"
    using prod_cases3 by blast
  from Cons.prems p obtain code b where r: "r = Response code b"
    by (cases r) simp_all
  from post_class_stream_trace [OF p] r
  have tr1: "tr1 = tr @ [(h, PostClassStream cid s, Some code)]"
    by (simp add: status_def)
  let ?a = "if code = 201 then a @ [s] else a"
  let ?k = "if code \<noteq> 201 \<and> code = 409 then k @ [s] else k"
  let ?f = "if code \<noteq> 201 \<and> code \<noteq> 409 then f @ [s] else f"
  from Cons.prems p r
  have "add_streams be h cid ss (?a, ?f, ?k) (st1, tr1) = (Inr (a', f', k'), st', tr')"
    by (simp split: if_splits)
  from Cons.IH [OF this] obtain codes where c: "length codes = length ss"
      "tr' = tr1 @ map (\<lambda>(s, c). (h, PostClassStream cid s, Some c)) (zip ss codes)"
      "a' = ?a @ map fst (filter (\<lambda>(s, c). c = 201) (zip ss codes))"
      "k' = ?k @ map fst (filter (\<lambda>(s, c). c = 409) (zip ss codes))"
      "f' = ?f @ map fst (filter (\<lambda>(s, c). c \<noteq> 201 \<and> c \<noteq> 409) (zip ss codes))"
    by blast
  have "length (code # codes) = length (s # ss)" using c(1) by simp
  moreover have "tr' = tr @ map (\<lambda>(s, c). (h, PostClassStream cid s, Some c))
                            (zip (s # ss) (code # codes))"
    using c(2) tr1 by simp
  moreover have "a' = a @ map fst (filter (\<lambda>(s, c). c = 201) (zip (s # ss) (code # codes)))"
    using c(3) by simp
  moreover have "k' = k @ map fst (filter (\<lambda>(s, c). c = 409) (zip (s # ss) (code # codes)))"
    using c(4) by simp
  moreover have "f' = f @ map fst (filter (\<lambda>(s, c). c \<noteq> 201 \<and> c \<noteq> 409)
                                     (zip (s # ss) (code # codes)))"
    using c(5) by simp
  ultimately show ?case by blast
qed

lemma add_streams_to_eq:
  "add_streams_to be h cid ss b w = add_streams be h cid ss b w"
  by (induction be h cid ss b w rule: add_streams.induct)
     (simp_all split: prod.splits response.splits)

lemma add_streams_returns:
  "(\<And>d s. fst (api_post_stream be d cid s) \<noteq> Raised)
   \<Longrightarrow> \<exists>b w'. add_streams be h cid ss bk w = (Inr b, w')"
proof (induction ss arbitrary: bk w)
  case Nil
  show ?case by (cases bk) auto
next
  case (Cons s ss)
  obtain a f k where bk: "bk = (a, f, k)" using prod_cases3 by blast
  obtain r st1 where p: "api_post_stream be (fst w) cid s = (r, st1)" by force
  with Cons.prems [of "fst w" s] obtain code b where r: "r = Response code b"
    by (cases r) simp_all
  from p r have "post_class_stream be h cid s w
      = (Response code b, st1, snd w @ [(h, PostClassStream cid s, Some code)])"
    by (simp add: post_class_stream_def status_def)
  with bk Cons.IH [OF Cons.prems] show ?case by simp
qed

lemma stream_report_lines:
  "(added \<noteq> [] \<longleftrightarrow>
      (CreatedWithStream level (hd added) year
         \<in> set (stream_report level year added skipped failed)
       \<or> CreatedWithStreams level added year
         \<in> set (stream_report level year added skipped failed)))
   \<and> (skipped \<noteq> [] \<longleftrightarrow>
        StreamsExist skipped level \<in> set (stream_report level year added skipped failed))
   \<and> (failed \<noteq> [] \<longleftrightarrow>
        StreamsFailed failed \<in> set (stream_report level year added skipped failed))"
  by (cases added rule: remdups_adj.cases) (auto simp: stream_report_def)

lemma add_report_lines:
  "(added \<noteq> [] \<longleftrightarrow>
      (StreamAdded (hd added) name year \<in> set (add_report name year added skipped failed)
       \<or> StreamsAdded added name year \<in> set (add_report name year added skipped failed)))
   \<and> (skipped \<noteq> [] \<longleftrightarrow>
        (StreamExists (hd skipped) name \<in> set (add_report name year added skipped failed)
       \<or> StreamsExistFor skipped name \<in> set (add_report name year added skipped failed)))
   \<and> (failed \<noteq> [] \<longleftrightarrow>
        AddFailed failed \<in> set (add_report name year added skipped failed))"
  by (cases added rule: remdups_adj.cases; cases skipped rule: remdups_adj.cases)
     (auto simp: add_report_def Let_def)

text \<open>
  Claim C3. The loop over the requested streams, which is the same in the action that
  creates a class and in the action that adds streams to a class, sends one request for
  each stream, in the order of the request. As long as every request is answered, the loop
  ends with three buckets: the streams answered with status 201 (added), those answered
  with status 409 (existing), and those with any other status (failed); an answer of one
  kind does not stop the streams after it. The report of either action has a line for the
  added streams exactly when that bucket is not empty, and likewise a line for the
  existing ones and a line for the failed ones. An API that answers every request makes
  the loop end with buckets.
\<close>

theorem stream_outcomes_are_bucketed:
  "((\<forall>d s. fst (api_post_stream be d cid s) \<noteq> Raised)
      \<longrightarrow> (\<exists>b w'. add_streams be h cid streams ([], [], []) (st, tr) = (Inr b, w')))
   \<and> (add_streams be h cid streams ([], [], []) (st, tr) = (Inr (added, failed, skipped), st', tr')
      \<longrightarrow> add_streams_to be h cid streams ([], [], []) (st, tr)
            = (Inr (added, failed, skipped), st', tr')
        \<and> (\<exists>codes. length codes = length streams
             \<and> tr' = tr @ map (\<lambda>(s, c). (h, PostClassStream cid s, Some c)) (zip streams codes)
             \<and> added = map fst (filter (\<lambda>(s, c). c = 201) (zip streams codes))
             \<and> skipped = map fst (filter (\<lambda>(s, c). c = 409) (zip streams codes))
             \<and> failed = map fst (filter (\<lambda>(s, c). c \<noteq> 201 \<and> c \<noteq> 409) (zip streams codes)))
        \<and> (added \<noteq> [] \<longleftrightarrow>
             (CreatedWithStream level (hd added) year
                \<in> set (stream_report level year added skipped failed)
              \<or> CreatedWithStreams level added year
                \<in> set (stream_report level year added skipped failed)))
        \<and> (skipped \<noteq> [] \<longleftrightarrow>
             StreamsExist skipped level \<in> set (stream_report level year added skipped failed))
        \<and> (failed \<noteq> [] \<longleftrightarrow>
             StreamsFailed failed \<in> set (stream_report level year added skipped failed))
        \<and> (added \<noteq> [] \<longleftrightarrow>
             (StreamAdded (hd added) level year
                \<in> set (add_report level year added skipped failed)
              \<or> StreamsAdded added level year
                \<in> set (add_report level year added skipped failed)))
        \<and> (skipped \<noteq> [] \<longleftrightarrow>
             (StreamExists (hd skipped) level
                \<in> set (add_report level year added skipped failed)
              \<or> StreamsExistFor skipped level
                \<in> set (add_report level year added skipped failed)))
        \<and> (failed \<noteq> [] \<longleftrightarrow>
             AddFailed failed \<in> set (add_report level year added skipped failed)))"
proof (intro conjI impI)
  assume "\<forall>d s. fst (api_post_stream be d cid s) \<noteq> Raised"
  then show "\<exists>b w'. add_streams be h cid streams ([], [], []) (st, tr) = (Inr b, w')"
    by (intro add_streams_returns) simp
next
  assume run: "add_streams be h cid streams ([], [], []) (st, tr)
      = (Inr (added, failed, skipped), st', tr')"
  then show "add_streams_to be h cid streams ([], [], []) (st, tr)
      = (Inr (added, failed, skipped), st', tr')"
    by (simp add: add_streams_to_eq)
  from add_streams_buckets [OF run]
  show "\<exists>codes. length codes = length streams
             \<and> tr' = tr @ map (\<lambda>(s, c). (h, PostClassStream cid s, Some c)) (zip streams codes)
             \<and> added = map fst (filter (\<lambda>(s, c). c = 201) (zip streams codes))
             \<and> skipped = map fst (filter (\<lambda>(s, c). c = 409) (zip streams codes))
             \<and> failed = map fst (filter (\<lambda>(s, c). c \<noteq> 201 \<and> c \<noteq> 409) (zip streams codes))"
    by simp
qed (simp_all only: stream_report_lines add_report_lines)

theorem stream_outcomes_are_bucketed_witness:
  "(\<exists>b w'. add_streams red_exists_api user_headers 0 [''Red'', ''Blue''] ([], [], []) (red_db, [])
              = (Inr b, w'))
   \<and> add_streams red_exists_api user_headers 0 [''Red'', ''Blue''] ([], [], []) (red_db, [])
       = (Inr ([''Blue''], [], [''Red'']), red_db,
          [(user_headers, PostClassStream 0 ''Red'', Some 409),
           (user_headers, PostClassStream 0 ''Blue'', Some 201)])
   \<and> StreamsExist [''Red''] ''Class 8''
       \<in> set (stream_report ''Class 8'' 2025 [''Blue''] [''Red''] [])
   \<and> StreamsFailed [] \<notin> set (stream_report ''Class 8'' 2025 [''Blue''] [''Red''] [])
   \<and> AddFailed [] \<notin> set (add_report ''Class 8'' 2025 [''Blue''] [''Red''] [])"
proof -
  have nr: "\<forall>d s. fst (api_post_stream red_exists_api d 0 s) \<noteq> Raised"
    by (simp add: red_exists_api_def)
  have run: "add_streams red_exists_api user_headers 0 [''Red'', ''Blue''] ([], [], []) (red_db, [])
       = (Inr ([''Blue''], [], [''Red'']), red_db,
          [(user_headers, PostClassStream 0 ''Red'', Some 409),
           (user_headers, PostClassStream 0 ''Blue'', Some 201)])"
    by code_simp
  note t = stream_outcomes_are_bucketed
             [where be = red_exists_api and cid = 0 and h = user_headers
                and streams = "[''Red'', ''Blue'']" and st = red_db and tr = "[]"
                and added = "[''Blue'']" and failed = "[]" and skipped = "[''Red'']"
                and st' = red_db
                and tr' = "[(user_headers, PostClassStream 0 ''Red'', Some 409),
                            (user_headers, PostClassStream 0 ''Blue'', Some 201)]"
                and level = "''Class 8''" and year = 2025]
  from t nr have a: "\<exists>b w'. add_streams red_exists_api user_headers 0 [''Red'', ''Blue'']
                        ([], [], []) (red_db, []) = (Inr b, w')"
    by blast
  from t run have "([''Red''] \<noteq> [] \<longleftrightarrow> StreamsExist [''Red''] ''Class 8''
       \<in> set (stream_report ''Class 8'' 2025 [''Blue''] [''Red''] []))
     \<and> (([]::string list) \<noteq> [] \<longleftrightarrow> StreamsFailed []
       \<in> set (stream_report ''Class 8'' 2025 [''Blue''] [''Red''] []))
     \<and> (([]::string list) \<noteq> [] \<longleftrightarrow> AddFailed []
       \<in> set (add_report ''Class 8'' 2025 [''Blue''] [''Red''] []))"
    by blast
  then have "StreamsExist [''Red''] ''Class 8''
       \<in> set (stream_report ''Class 8'' 2025 [''Blue''] [''Red''] [])
   \<and> StreamsFailed [] \<notin> set (stream_report ''Class 8'' 2025 [''Blue''] [''Red''] [])
   \<and> AddFailed [] \<notin> set (add_report ''Class 8'' 2025 [''Blue''] [''Red''] [])"
    by simp
  with a run show ?thesis by blast
qed

text \<open>
  A request that gets no response ends the loop: the streams after it are not attempted,
  and the message is the one for a connection failure, without the buckets collected so
  far. Here Red has been added, the request for Blue is lost and Green is never sent.
\<close>

theorem lost_request_stops_the_remaining_streams:
  "fst (create_class_parse
          (message ''create grade 7 with streams red, blue and green'' ''create_class''
             (Some ''token'') (Some ''school-1'') no_slots))
     = Some (''Class 7'', [''Red'', ''Blue'', ''Green''], None)
   \<and> ActionCreateClass_run blue_unreachable_api
          (message ''create grade 7 with streams red, blue and green'' ''create_class''
             (Some ''token'') (Some ''school-1'') no_slots) empty_db
     = (([ConnectionTrouble], clear_class_slots, [LogError ''Error creating class'']),
        \<lparr>db_classes = [\<lparr>row_id = 0, row_school = ''school-1'', row_name = ''Class 7'',
                         row_level = ''Class 7'', row_year = 2025, row_stream = None,
                         row_created = 0\<rparr>],
          db_streams = [], db_counter = 1\<rparr>,
        [(user_headers, GetCurrentSetup, Some 200),
         (user_headers,
          PostLevelStream \<lparr>cc_name = ''Class 7'', cc_level = ''Class 7'', cc_stream = None,
                            cc_academic_year = 2025\<rparr>, Some 201),
         (user_headers, PostClassStream 0 ''Red'', Some 201),
         (user_headers, PostClassStream 0 ''Blue'', None)])"
  by code_simp

section \<open>Slot-filling state machine: an interruption of the form\<close>

lemma ActionListClasses_events:
  "snd (fst (ActionListClasses_run be tr st)) = []"
  by (simp add: ActionListClasses_run_def get_classes_call_def Let_def
      split: response.splits)

text \<open>
  Claim C6. The form asks for the admission number and the intent of the turn is
  \<open>list_classes\<close>, one of the interruption intents, whose handler is
  \<open>action_list_classes\<close>. In the turn that runs this handler and then the action for
  interruptions of the form, the messages are those of the handler followed by the prompt
  for the admission number, and no slot event is returned: every slot, the student name
  among them, keeps its value. With a token and an API that answers with a list of
  classes that is not empty, the message of the handler is that list. The validator of
  the student name takes nothing from the text of such a turn and utters nothing.
\<close>

theorem interruption_reprompts_and_keeps_slots:
  assumes "tr_intent tr = ''list_classes''"
    and "tr_slots tr ''requested_slot'' = Some ''admission_no''"
  shows "tr_intent tr \<in> set clear_interruptions
       \<and> action_map (tr_intent tr) = Some ''action_list_classes''
       \<and> ActionHandleFormInterruption_run tr = ([SlotPrompt ''admission_no''], [])
       \<and> fst (interrupted_turn (ActionListClasses_run be) tr st)
           = (fst (fst (ActionListClasses_run be tr st)) @ [SlotPrompt ''admission_no''], [])
       \<and> snd (interrupted_turn (ActionListClasses_run be) tr st)
           = snd (ActionListClasses_run be tr st)
       \<and> apply_events (snd (fst (interrupted_turn (ActionListClasses_run be) tr st)))
            (tr_slots tr) = tr_slots tr
       \<and> (truthy (tr_auth_token tr) \<and> classes \<noteq> []
            \<and> api_get_classes be st None None = Response 200 classes
          \<longrightarrow> fst (fst (ActionListClasses_run be tr st)) = [ClassList classes])
       \<and> validate_student_name v tr = ([(''student_name'', None)], [])"
proof -
  have a: "tr_intent tr \<in> set clear_interruptions"
    using assms(1) by (simp add: clear_interruptions_def)
  have b: "action_map (tr_intent tr) = Some ''action_list_classes''"
    using assms(1) by (simp add: action_map_def)
  have c: "\<And>t. tr_slots t ''requested_slot'' = Some ''admission_no''
      \<Longrightarrow> ActionHandleFormInterruption_run t = ([SlotPrompt ''admission_no''], [])"
    by (simp add: ActionHandleFormInterruption_run_def)
  obtain msgs evs w where r: "ActionListClasses_run be tr st = ((msgs, evs), w)"
    by (metis surj_pair)
  with ActionListClasses_events [of be tr st] have evs: "evs = []" by simp
  have t: "tr\<lparr>tr_slots := apply_events [] (tr_slots tr)\<rparr> = tr"
    by (simp add: apply_events_def)
  have d: "interrupted_turn (ActionListClasses_run be) tr st
      = ((msgs @ [SlotPrompt ''admission_no''], []), w)"
    by (simp add: interrupted_turn_def r evs t c [OF assms(2)])
  have e: "truthy (tr_auth_token tr) \<and> classes \<noteq> []
            \<and> api_get_classes be st None None = Response 200 classes
          \<longrightarrow> fst (fst (ActionListClasses_run be tr st)) = [ClassList classes]"
    by (simp add: ActionListClasses_run_def get_classes_call_def Let_def)
  have f: "validate_student_name v tr = ([(''student_name'', None)], [])"
    using a by (simp add: validate_student_name_def)
  from a b c [OF assms(2)] d r e f show ?thesis
    by (simp add: apply_events_def)
qed

theorem interruption_reprompts_and_keeps_slots_witness:
  "fst (interrupted_turn (ActionListClasses_run school_api)
          (message ''list classes'' ''list_classes'' (Some ''token'') (Some ''school-1'')
             collecting_admission_no) red_db)
     = ([ClassList [\<lparr>co_id = 0, co_name = ''Class 8'', co_level = ''Class 8'',
                        co_academic_year = 2025, co_stream = None, co_created = 0,
                        co_streams = [''Red'']\<rparr>],
         SlotPrompt ''admission_no''], [])
   \<and> apply_events (snd (fst (interrupted_turn (ActionListClasses_run school_api)
          (message ''list classes'' ''list_classes'' (Some ''token'') (Some ''school-1'')
             collecting_admission_no) red_db))) collecting_admission_no ''student_name''
     = Some ''Joshua Mwangi''"
proof -
  let ?tr = "message ''list classes'' ''list_classes'' (Some ''token'') (Some ''school-1'')
             collecting_admission_no"
  let ?cs = "[\<lparr>co_id = 0, co_name = ''Class 8'', co_level = ''Class 8'',
                        co_academic_year = 2025, co_stream = None, co_created = 0,
                        co_streams = [''Red'']\<rparr>]"
  have i: "tr_intent ?tr = ''list_classes''" by (simp add: message_def)
  have s: "tr_slots ?tr ''requested_slot'' = Some ''admission_no''"
    by (simp add: message_def collecting_admission_no_def)
  have sl: "tr_slots ?tr = collecting_admission_no" by (simp add: message_def)
  have n: "collecting_admission_no ''student_name'' = Some ''Joshua Mwangi''"
    by (simp add: collecting_admission_no_def)
  have k: "truthy (tr_auth_token ?tr)" by (simp add: message_def truthy_def)
  have g: "api_get_classes school_api red_db None None = Response 200 ?cs"
    by code_simp
  note t = interruption_reprompts_and_keeps_slots [OF i s, of school_api red_db ?cs None]
  from t k g have m: "fst (fst (ActionListClasses_run school_api ?tr red_db)) = [ClassList ?cs]"
    by simp
  from t have "fst (interrupted_turn (ActionListClasses_run school_api) ?tr red_db)
           = (fst (fst (ActionListClasses_run school_api ?tr red_db)) @ [SlotPrompt ''admission_no''], [])"
    by (elim conjE)
  with m have f: "fst (interrupted_turn (ActionListClasses_run school_api) ?tr red_db)
           = ([ClassList ?cs, SlotPrompt ''admission_no''], [])"
    by simp
  from t have "apply_events (snd (fst (interrupted_turn (ActionListClasses_run school_api) ?tr red_db)))
            (tr_slots ?tr) = tr_slots ?tr"
    by (elim conjE)
  with sl n have "apply_events (snd (fst (interrupted_turn (ActionListClasses_run school_api) ?tr red_db)))
            collecting_admission_no ''student_name'' = Some ''Joshua Mwangi''"
    by simp
  with f show ?thesis by (rule conjI)
qed

section \<open>Resource resolver: more than one class of a level\<close>









end
